theory Spec2Isabelle
  imports Main "HOL-Library.Word" "HOL-Library.AList"
begin

unbundle bit_operations_syntax

section \<open>Folder trees and \<open>SPFolder.walk\<close>\<close>

text \<open>
  A remote folder as \<open>SPFolder.walk\<close> sees it: the node's endpoint URL, the value
  of its \<open>Files\<close> attribute (the files are represented by their URLs) and the value
  of its \<open>Folders\<close> attribute (the child folder nodes). The source resolves the two
  attributes lazily through the network; the tree records what those reads return.
\<close>

datatype folder = Folder (url: string) (files: "string list") (folders: "folder list")

type_synonym triple = "folder \<times> folder list \<times> string list"

text \<open>
  \<open>SPFolder.walk(self, topdown=True, maxdepth=None)\<close>. The generator is modelled by
  the list of the triples it yields, in order. \<open>maxdepth\<close> is \<open>None\<close> or a Python int.
  The test \<open>if maxdepth:\<close> is Python truthiness: false for \<open>None\<close> and for \<open>0\<close>.
\<close>

fun walk :: "folder \<Rightarrow> bool \<Rightarrow> int option \<Rightarrow> triple list" where
  "walk (Folder u fs subs) topdown maxdepth =
     (if topdown then [(Folder u fs subs, subs, fs)] else []) @
     (if maxdepth = None \<or> 1 < the maxdepth
      then concat (map (\<lambda>folder.
             walk folder topdown
               (if maxdepth \<noteq> None \<and> maxdepth \<noteq> Some 0 then Some (the maxdepth - 1) else None))
             subs)
      else []) @
     (if \<not> topdown then [(Folder u fs subs, subs, fs)] else [])"

text \<open>
  \<open>SPFolder.download(destination, maxdepth)\<close> calls \<open>download_files\<close> on every folder
  that \<open>self.walk(maxdepth=maxdepth)\<close> yields; \<open>download_folders\<close> is that sequence of
  folders.
\<close>

definition download_folders :: "folder \<Rightarrow> int option \<Rightarrow> folder list" where
  "download_folders self maxdepth = map fst (walk self True maxdepth)"

text \<open>The proper descendants of a folder, and the URLs of a whole tree.\<close>

fun descendants :: "folder \<Rightarrow> folder set" where
  "descendants (Folder u fs subs) = (\<Union>s \<in> set subs. insert s (descendants s))"

fun all_urls :: "folder \<Rightarrow> string list" where
  "all_urls (Folder u fs subs) = u # concat (map all_urls subs)"

text \<open>The folders of a tree that lie fewer than \<open>d\<close> levels below its root, in pre-order.\<close>

fun upto_depth :: "nat \<Rightarrow> folder \<Rightarrow> folder list" where
  "upto_depth 0 t = []"
| "upto_depth (Suc d) (Folder u fs subs) =
     Folder u fs subs # concat (map (upto_depth d) subs)"

section \<open>Python exceptions\<close>

text \<open>
  The exceptions of the modelled code. \<open>TransportError\<close> is the \<open>Exception\<close> that
  \<open>_check_response\<close> raises for a response that is not ok, \<open>UnsupportedVerb\<close> the one
  that \<open>http\<close> raises for a verb other than GET and POST, \<open>NotANodeClass\<close> marks
  the call of a function that \<open>_json_to_object\<close> has looked up in place of a class and
  that runs code outside the modelled files; the computation ends there like at an
  exception.
\<close>

datatype pyerror = KeyError | TypeError | AttributeError | JSONDecodeError | IOError
  | OverflowError | TransportError | UnsupportedVerb | NotANodeClass

text \<open>Sequencing of computations that may raise.\<close>

fun and_then :: "pyerror + 'a \<Rightarrow> ('a \<Rightarrow> pyerror + 'b) \<Rightarrow> pyerror + 'b" where
  "and_then (Inl e) f = Inl e"
| "and_then (Inr x) f = f x"

section \<open>Call strings: \<open>_stringify\<close> and \<open>SPObject._make_call_string\<close>\<close>

text \<open>
  The arguments of a remote method: strings, \<open>uuid.UUID\<close> values (a 128-bit
  integer), ints, bools, \<open>None\<close>, and the built-in values other than strings that
  have a \<open>replace\<close> attribute: \<open>bytes\<close>, \<open>bytearray\<close>, \<open>datetime\<close> (in microseconds
  since \<open>datetime.min\<close>) and \<open>date\<close> (its ordinal). Floats are not represented.
\<close>

datatype pyarg = PStr string | PUuid "128 word" | PInt int | PBool bool | PNone
  | PBytes "8 word list" | PByteArray "8 word list" | PDatetime int | PDate int

text \<open>\<open>str(n)\<close> for a Python int: decimal digits, with a minus sign when negative.\<close>

fun str_nat :: "nat \<Rightarrow> string" where
  "str_nat n = (if n < 10 then [''0123456789'' ! n]
                else str_nat (n div 10) @ [''0123456789'' ! (n mod 10)])"

declare str_nat.simps [simp del]

definition str_int :: "int \<Rightarrow> string" where
  "str_int i = (if i < 0 then CHR ''-'' # str_nat (nat (- i)) else str_nat (nat i))"

text \<open>\<open>str(u)\<close> for a UUID: 32 lower-case hex digits in groups of 8, 4, 4, 4 and 12.\<close>

definition hex32 :: "128 word \<Rightarrow> string" where
  "hex32 w = map (\<lambda>i. ''0123456789abcdef'' ! unat (drop_bit (4 * (31 - i)) w AND 15)) [0..<32]"

definition str_uuid :: "128 word \<Rightarrow> string" where
  "str_uuid u = (let h = hex32 u in
     take 8 h @ ''-'' @ take 4 (drop 8 h) @ ''-'' @ take 4 (drop 12 h) @ ''-'' @
     take 4 (drop 16 h) @ ''-'' @ drop 20 h)"

text \<open>\<open>obj.replace("'", "%27%27")\<close>; the apostrophe is the character \<open>0x27\<close>.\<close>

definition replace_apostrophe :: "string \<Rightarrow> string" where
  "replace_apostrophe s = concat (map (\<lambda>c. if c = CHR 0x27 then ''%27%27'' else [c]) s)"

text \<open>
  \<open>_stringify(obj)\<close>. The \<open>try\<close> block calls \<open>obj.replace("'", "%27%27")\<close>: on a string
  it succeeds; on \<open>bytes\<close>, \<open>bytearray\<close>, \<open>datetime\<close> and \<open>date\<close> the attribute
  exists and rejects the two string arguments with a \<open>TypeError\<close>, which the
  \<open>except AttributeError\<close> clause does not catch; the other values have no \<open>replace\<close>
  and reach that clause.
\<close>

fun stringify :: "pyarg \<Rightarrow> pyerror + string" where
  "stringify (PStr obj) = Inr ([CHR 0x27] @ replace_apostrophe obj @ [CHR 0x27])"
| "stringify (PBytes obj) = Inl TypeError"
| "stringify (PByteArray obj) = Inl TypeError"
| "stringify (PDatetime obj) = Inl TypeError"
| "stringify (PDate obj) = Inl TypeError"
| "stringify (PUuid obj) = Inr (''guid'' @ [CHR 0x27] @ str_uuid obj @ [CHR 0x27])"
| "stringify (PInt obj) = Inr (str_int obj)"
| "stringify (PBool obj) = Inr (if obj then ''True'' else ''False'')"
| "stringify PNone = Inr ''None''"

text \<open>\<open>sep.join(xs)\<close> and \<open>s.strip(chars)\<close>.\<close>

fun join :: "string \<Rightarrow> string list \<Rightarrow> string" where
  "join sep [] = []"
| "join sep [x] = x"
| "join sep (x # y # ys) = x @ sep @ join sep (y # ys)"

definition strip :: "char set \<Rightarrow> string \<Rightarrow> string" where
  "strip cs s = rev (dropWhile (\<lambda>c. c \<in> cs) (rev (dropWhile (\<lambda>c. c \<in> cs) s)))"

text \<open>
  The two list comprehensions of \<open>_make_call_string\<close>: the positional arguments, then
  the keyword arguments (an association list in the order the caller wrote them). The
  first argument on which \<open>_stringify\<close> raises ends the call.
\<close>

fun stringify_args :: "pyarg list \<Rightarrow> pyerror + string list" where
  "stringify_args [] = Inr []"
| "stringify_args (arg # args) =
     and_then (stringify arg) (\<lambda>s. and_then (stringify_args args) (\<lambda>ss. Inr (s # ss)))"

fun stringify_kwargs :: "(string \<times> pyarg) list \<Rightarrow> pyerror + string list" where
  "stringify_kwargs [] = Inr []"
| "stringify_kwargs ((key, val) # kwargs) =
     and_then (stringify val) (\<lambda>s.
     and_then (stringify_kwargs kwargs) (\<lambda>ss. Inr ((key @ ''='' @ s) # ss)))"

text \<open>\<open>_make_call_string(method_name, *args, **kwargs)\<close>.\<close>

definition make_call_string ::
  "string \<Rightarrow> pyarg list \<Rightarrow> (string \<times> pyarg) list \<Rightarrow> pyerror + string" where
  "make_call_string method_name args kwargs =
     and_then (stringify_args args) (\<lambda>args'.
     and_then (stringify_kwargs kwargs) (\<lambda>kwargs'.
       (let all_args = strip {CHR '','', CHR '' ''}
                         (join '', '' [join '', '' args', join '', '' kwargs'])
        in Inr (''/'' @ method_name @ ''('' @ all_args @ '')''))))"

section \<open>JSON values\<close>

text \<open>
  A decoded JSON value as \<open>Response.json()\<close> returns it: \<open>None\<close>, a bool, an int, a
  string, a list or a dict (an association list in the order of the keys). Numbers
  with a fraction are not represented.
\<close>

datatype json = JNull | JBool bool | JInt int | JStr string
  | JList "json list" | JDict "(string \<times> json) list"

text \<open>Python's truth value of a JSON value (\<open>if json:\<close>, \<open>if not json:\<close>).\<close>

fun truthy :: "json \<Rightarrow> bool" where
  "truthy JNull = False"
| "truthy (JBool b) = b"
| "truthy (JInt i) = (i \<noteq> 0)"
| "truthy (JStr s) = (s \<noteq> [])"
| "truthy (JList xs) = (xs \<noteq> [])"
| "truthy (JDict d) = (d \<noteq> [])"

text \<open>
  \<open>obj[key]\<close> for a string key: a dict raises \<open>KeyError\<close> for a missing key, every
  other value raises \<open>TypeError\<close> (not subscriptable, or indices must be integers).
\<close>

fun subscript :: "json \<Rightarrow> string \<Rightarrow> pyerror + json" where
  "subscript (JDict d) key = (case map_of d key of None \<Rightarrow> Inl KeyError | Some v \<Rightarrow> Inr v)"
| "subscript _ key = Inl TypeError"

section \<open>The API client: \<open>APIclient\<close>\<close>

text \<open>
  A request as the transport session sends it: the method, the URL, the session's
  headers at the moment of sending, and the query parameters or the body.
\<close>

datatype http_method = GET | POST

datatype payload = NoPayload | Query "(string \<times> string) list" | Data "8 word list"

record request =
  meth :: http_method
  target :: string
  sent_headers :: "(string \<times> json) list"
  content :: payload

text \<open>A response: \<open>r.ok\<close>, and \<open>r.json()\<close> (\<open>None\<close> when the body is not JSON).\<close>

record response =
  ok :: bool
  decoded :: "json option"

text \<open>
  The world outside the program. The server answers a request as a function of all the
  requests sent so far, the last one being the one it answers. \<open>clock\<close> gives the
  instant (in microseconds) that the \<open>k\<close>-th call of \<open>datetime.now()\<close> returns, and
  \<open>read_error\<close> tells at which positions of the local file \<open>f.read\<close> raises.
\<close>

record env =
  server :: "request list \<Rightarrow> response"
  clock :: "nat \<Rightarrow> int"
  read_error :: "nat \<Rightarrow> bool"

text \<open>
  The state of an \<open>APIclient\<close>: \<open>api_url\<close>, the session's headers, \<open>expire\<close>, and two
  ghost fields: the requests sent so far, and how often the clock has been read.
\<close>

record client =
  api_url :: string
  headers :: "(string \<times> json) list"
  expire :: int
  sent :: "request list"
  ticks :: nat

text \<open>\<open>self._session.get(url, params=...)\<close> and \<open>self._session.post(url, data=...)\<close>.\<close>

definition session_request ::
  "env \<Rightarrow> client \<Rightarrow> http_method \<Rightarrow> string \<Rightarrow> payload \<Rightarrow> response \<times> client" where
  "session_request e c m u p =
     (let rq = \<lparr>meth = m, target = u, sent_headers = headers c, content = p\<rparr>
      in (server e (sent c @ [rq]), c\<lparr>sent := sent c @ [rq]\<rparr>))"

definition response_json :: "response \<Rightarrow> pyerror + json" where
  "response_json r = (case decoded r of None \<Rightarrow> Inl JSONDecodeError | Some j \<Rightarrow> Inr j)"

text \<open>
  \<open>_check_response\<close>: nothing for an ok response. Otherwise it reads the server's
  message, catching \<open>KeyError\<close> and \<open>JSONDecodeError\<close> only, and raises.
\<close>

definition check_response :: "response \<Rightarrow> pyerror + unit" where
  "check_response r =
     (if ok r then Inr ()
      else (case and_then (and_then (and_then (response_json r)
                    (\<lambda>j. subscript j ''error'')) (\<lambda>j. subscript j ''message''))
                    (\<lambda>j. subscript j ''value'') of
              Inl TypeError \<Rightarrow> Inl TypeError
            | _ \<Rightarrow> Inl TransportError))"

text \<open>
  An instant is a \<open>datetime\<close>, counted in microseconds since \<open>datetime.min\<close>.
  \<open>timedelta(seconds=x)\<close> in microseconds: an int (a bool is an int) is accepted when
  its whole days are at most 999999999 in magnitude and raises \<open>OverflowError\<close>
  otherwise; every other JSON value raises \<open>TypeError\<close>. Adding a \<open>timedelta\<close> to a
  \<open>datetime\<close> raises \<open>OverflowError\<close> when the sum is not a \<open>datetime\<close>, that is
  before \<open>datetime.min\<close> or after \<open>datetime.max\<close> (the last microsecond of the
  day with ordinal 3652059).
\<close>

fun timedelta_seconds :: "json \<Rightarrow> pyerror + int" where
  "timedelta_seconds (JInt n) =
     (if - 999999999 \<le> n div 86400 \<and> n div 86400 \<le> 999999999
      then Inr (n * 1000000) else Inl OverflowError)"
| "timedelta_seconds (JBool b) = Inr (if b then 1000000 else 0)"
| "timedelta_seconds _ = Inl TypeError"

definition add_timedelta :: "int \<Rightarrow> int \<Rightarrow> pyerror + int" where
  "add_timedelta now delta =
     (if 0 \<le> now + delta \<and> now + delta < 3652059 * 86400000000
      then Inr (now + delta) else Inl OverflowError)"

text \<open>The request by which \<open>_digest\<close> asks for a new token, and the token in its answer.\<close>

definition renewal_request :: "client \<Rightarrow> request" where
  "renewal_request c =
     \<lparr>meth = POST, target = api_url c @ ''/contextinfo'', sent_headers = headers c,
      content = NoPayload\<rparr>"

definition contextinfo :: "response \<Rightarrow> pyerror + json" where
  "contextinfo r = and_then (and_then (response_json r) (\<lambda>j. subscript j ''d''))
                     (\<lambda>j. subscript j ''GetContextWebInformation'')"

text \<open>\<open>APIclient._digest\<close>. The exception, if any, comes with the state it leaves.\<close>

definition digest :: "env \<Rightarrow> client \<Rightarrow> (pyerror + unit) \<times> client" where
  "digest e c =
     (let now = clock e (ticks c); c1 = c\<lparr>ticks := ticks c + 1\<rparr> in
      if expire c \<le> now then
        (case session_request e c1 POST (api_url c1 @ ''/contextinfo'') NoPayload of (r, c2) \<Rightarrow>
         case check_response r of Inl x \<Rightarrow> (Inl x, c2) | Inr _ \<Rightarrow>
         case contextinfo r of Inl x \<Rightarrow> (Inl x, c2) | Inr info \<Rightarrow>
         case subscript info ''FormDigestValue'' of Inl x \<Rightarrow> (Inl x, c2) | Inr tok \<Rightarrow>
           (let c3 = c2\<lparr>headers := AList.update ''X-RequestDigest'' tok (headers c2)\<rparr>;
                now2 = clock e (ticks c3);
                c4 = c3\<lparr>ticks := ticks c3 + 1\<rparr>
            in case and_then (and_then (subscript info ''FormDigestTimeoutSeconds'')
                                timedelta_seconds) (add_timedelta now2) of
                 Inl x \<Rightarrow> (Inl x, c4)
               | Inr t \<Rightarrow> (Inr (), c4\<lparr>expire := t\<rparr>)))
      else (Inr (), c1))"

text \<open>
  \<open>verb.upper()\<close> for a verb of 8-bit characters: the letters \<open>a\<close> to \<open>z\<close> become
  capitals. The other characters are left as they are; a verb that contains one of
  them does not upper-case to GET or POST in Python either.
\<close>

definition upper :: "string \<Rightarrow> string" where
  "upper s = map (\<lambda>c. case map_of (zip ''abcdefghijklmnopqrstuvwxyz'' ''ABCDEFGHIJKLMNOPQRSTUVWXYZ'') c
                        of None \<Rightarrow> c | Some C \<Rightarrow> C) s"

text \<open>\<open>APIclient.http\<close>, \<open>APIclient.get\<close> and \<open>APIclient.post\<close>.\<close>

definition http :: "env \<Rightarrow> client \<Rightarrow> string \<Rightarrow> string \<Rightarrow> payload \<Rightarrow> (pyerror + response) \<times> client" where
  "http e c verb u p =
     (if upper verb = ''GET'' then
        (case session_request e c GET u p of (r, c1) \<Rightarrow>
           (and_then (check_response r) (\<lambda>_. Inr r), c1))
      else if upper verb = ''POST'' then
        (case digest e c of
           (Inl x, c1) \<Rightarrow> (Inl x, c1)
         | (Inr _, c1) \<Rightarrow>
             (case session_request e c1 POST u p of (r, c2) \<Rightarrow>
                (and_then (check_response r) (\<lambda>_. Inr r), c2)))
      else (Inl UnsupportedVerb, c))"

definition get :: "env \<Rightarrow> client \<Rightarrow> string \<Rightarrow> payload \<Rightarrow> (pyerror + response) \<times> client" where
  "get e c u params = http e c ''GET'' u params"

definition post :: "env \<Rightarrow> client \<Rightarrow> string \<Rightarrow> payload \<Rightarrow> (pyerror + response) \<times> client" where
  "post e c u data = http e c ''POST'' u data"

text \<open>The token and the lifetime (as a \<open>timedelta\<close>) that a renewal response carries.\<close>

definition renewal_token :: "response \<Rightarrow> pyerror + json" where
  "renewal_token r = and_then (contextinfo r) (\<lambda>info. subscript info ''FormDigestValue'')"

definition renewal_timeout :: "response \<Rightarrow> pyerror + int" where
  "renewal_timeout r =
     and_then (contextinfo r) (\<lambda>info.
     and_then (subscript info ''FormDigestTimeoutSeconds'') timedelta_seconds)"

text \<open>
  What a renewal by the client \<open>c\<close> yields: the new token and the new expiry, which
  is the clock reading after the renewal request plus the lifetime; or the exception
  of the first step that fails.
\<close>

definition renewal :: "env \<Rightarrow> client \<Rightarrow> pyerror + (json \<times> int)" where
  "renewal e c =
     (let r = server e (sent c @ [renewal_request c]) in
      and_then (check_response r) (\<lambda>_.
      and_then (renewal_token r) (\<lambda>tok.
      and_then (renewal_timeout r) (\<lambda>delta.
      and_then (add_timedelta (clock e (ticks c + 1)) delta) (\<lambda>t. Inr (tok, t))))))"

section \<open>Resource nodes: \<open>SPObject\<close>, \<open>_json_to_object\<close> and \<open>LazyAttribute\<close>\<close>

text \<open>
  The classes of the module that \<open>_json_to_object\<close> can pick. An instance of one of
  the two lazy classes keeps the third constructor argument: \<open>LazyAttribute\<close> as its
  \<open>_name\<close> (its \<open>_value\<close> is \<open>None\<close> then), \<open>LazyPost\<close> as its \<open>data\<close>; the class tag
  carries that argument. A node is its class, its \<open>_endpoint_url\<close> and its
  \<open>_attributes\<close> dict (in insertion order). An attribute holds a raw JSON value
  (Python's \<open>None\<close> is \<open>JNull\<close>), a node, or a list of nodes.
\<close>

datatype spclass = SPObject | SPSite | SPFolder | SPFile | LazyAttribute json | LazyPost json

datatype node = Node (cls: spclass) (endpoint_url: json) (attributes: "(string \<times> pyval) list")
  and pyval = VJson json | VObj node | VObjs "node list"

fun truthy_val :: "pyval \<Rightarrow> bool" where
  "truthy_val (VJson j) = truthy j"
| "truthy_val (VObj n) = True"
| "truthy_val (VObjs ns) = (ns \<noteq> [])"

text \<open>
  The loop of \<open>SPObject.__init__\<close> over \<open>json.items()\<close>: a value that is a dict is
  deferred and left out, every other value is stored under its name.
\<close>

fun init_attributes :: "(string \<times> json) list \<Rightarrow> (string \<times> pyval) list \<Rightarrow> (string \<times> pyval) list" where
  "init_attributes [] acc = acc"
| "init_attributes ((name, JDict d) # rest) acc = init_attributes rest acc"
| "init_attributes ((name, val) # rest) acc = init_attributes rest (AList.update name (VJson val) acc)"

text \<open>
  \<open>SPObject.__init__(self, url, api_client, json=None)\<close> for a \<open>json\<close> argument that
  is \<open>None\<close> or a dict. The constructor pops \<open>'__metadata'\<close> from the caller's dict,
  so the result is the new node together with the dict as the call leaves it.
\<close>

definition SPObject_init ::
  "spclass \<Rightarrow> json \<Rightarrow> (string \<times> json) list option
     \<Rightarrow> pyerror + (node \<times> (string \<times> json) list option)" where
  "SPObject_init k u js =
     (case js of
        None \<Rightarrow> Inr (Node k u [], None)
      | Some d \<Rightarrow>
          if d = [] then Inr (Node k u [], Some d)
          else (case map_of d ''__metadata'' of
                  None \<Rightarrow> Inl KeyError
                | Some m \<Rightarrow>
                    (let d' = AList.delete ''__metadata'' d
                     in Inr (Node k u (init_attributes d' []), Some d'))))"

text \<open>
  \<open>globals()[sp_type]\<close> in \<open>_json_to_object\<close>: one of the six classes of the module,
  the fallback \<open>SPObject\<close> when the name is not a global of the module, or another
  global of the module. Of these, the imported modules, the logger, the module
  attributes such as \<open>__name__\<close> and the functions of one or two parameters cannot be
  called with the three arguments; the functions that accept three arguments run the
  standard library or a login.
\<close>

datatype global = NodeClass spclass | LazyAttributeClass | LazyPostClass
  | NotCallable | OtherFunction

definition not_callable_globals :: "string list" where
  "not_callable_globals = [''os'', ''uuid'', ''logging'', ''logger'', ''manual_auth'',
     ''_json_to_object'', ''_stringify'', ''__name__'',
     ''__doc__'', ''__package__'', ''__loader__'', ''__spec__'', ''__file__'', ''__cached__'',
     ''__builtins__'']"

definition other_functions :: "string list" where
  "other_functions = [''parse_qs'', ''urlsplit'', ''get_api_client'', ''site_login'',
     ''get_new_site'']"

definition lookup_global :: "string \<Rightarrow> global" where
  "lookup_global sp_type =
     (if sp_type = ''SPObject'' then NodeClass SPObject
      else if sp_type = ''SPSite'' then NodeClass SPSite
      else if sp_type = ''SPFolder'' then NodeClass SPFolder
      else if sp_type = ''SPFile'' then NodeClass SPFile
      else if sp_type = ''LazyAttribute'' then LazyAttributeClass
      else if sp_type = ''LazyPost'' then LazyPostClass
      else if sp_type \<in> set not_callable_globals then NotCallable
      else if sp_type \<in> set other_functions then OtherFunction
      else NodeClass SPObject)"

text \<open>
  \<open>_json_to_object(json, api_client)\<close>: the object, and the envelope as the call
  leaves it. A type tag that is not a string has no \<open>replace\<close>. The four node classes
  take the envelope as \<open>json\<close> and pop \<open>'__metadata'\<close> from it; \<open>LazyAttribute\<close> takes
  it as \<open>name\<close> and \<open>LazyPost\<close> as \<open>data\<close>, and both leave it as it is. A global
  that cannot be called with the three arguments raises \<open>TypeError\<close>. The call of one
  of the five other functions is not modelled further: it ends with \<open>NotANodeClass\<close>.
\<close>

definition json_to_object :: "json \<Rightarrow> pyerror + (node \<times> json)" where
  "json_to_object j =
     and_then (subscript j ''__metadata'') (\<lambda>m.
     and_then (subscript m ''type'') (\<lambda>t.
       case t of
         JStr ts \<Rightarrow>
           (let sp_class = lookup_global (filter (\<lambda>c. c \<noteq> CHR ''.'') ts) in
            and_then (subscript m ''uri'') (\<lambda>uri.
              case sp_class of
                NotCallable \<Rightarrow> Inl TypeError
              | OtherFunction \<Rightarrow> Inl NotANodeClass
              | LazyAttributeClass \<Rightarrow> Inr (Node (LazyAttribute j) uri [], j)
              | LazyPostClass \<Rightarrow> Inr (Node (LazyPost j) uri [], j)
              | NodeClass k \<Rightarrow>
                  (case j of
                     JDict d \<Rightarrow>
                       (case SPObject_init k uri (Some d) of
                          Inl x \<Rightarrow> Inl x
                        | Inr (n, d') \<Rightarrow>
                            Inr (n, JDict (case d' of None \<Rightarrow> [] | Some d'' \<Rightarrow> d'')))
                   | _ \<Rightarrow> Inl TypeError)))
       | _ \<Rightarrow> Inl AttributeError))"

text \<open>
  Iterating over \<open>json['results']\<close>: the items of a list, the characters of a string,
  the keys of a dict; the other values are not iterable.
\<close>

fun iterate :: "json \<Rightarrow> pyerror + json list" where
  "iterate (JList xs) = Inr xs"
| "iterate (JStr s) = Inr (map (\<lambda>c. JStr [c]) s)"
| "iterate (JDict d) = Inr (map (\<lambda>(key, val). JStr key) d)"
| "iterate _ = Inl TypeError"

fun objects :: "json list \<Rightarrow> pyerror + node list" where
  "objects [] = Inr []"
| "objects (item # items) =
     and_then (json_to_object item) (\<lambda>(n, _).
     and_then (objects items) (\<lambda>ns. Inr (n # ns)))"

text \<open>
  \<open>LazyAttribute._parse_json(self, json)\<close> with \<open>self._name = name\<close>. A value that is
  truthy and not a dict has no \<open>keys\<close>. The two branches that build nodes read
  \<open>self._api_client\<close> when they evaluate the arguments of \<open>_json_to_object\<close>;
  \<open>has_client\<close> tells whether that field is set already, and reading it before raises
  \<open>AttributeError\<close>. An empty \<open>results\<close> never evaluates those arguments.
\<close>

definition parse_json :: "string \<Rightarrow> bool \<Rightarrow> json \<Rightarrow> pyerror + pyval" where
  "parse_json name has_client j =
     (if \<not> truthy j then Inr (VJson JNull)
      else (case j of
              JDict d \<Rightarrow>
                (case map_of d name of
                   Some v \<Rightarrow> Inr (VJson v)
                 | None \<Rightarrow>
                     (case map_of d ''results'' of
                        Some rs \<Rightarrow>
                          and_then (iterate rs) (\<lambda>results.
                            if results = [] then Inr (VObjs [])
                            else if \<not> has_client then Inl AttributeError
                            else and_then (objects results) (\<lambda>ns. Inr (VObjs ns)))
                      | None \<Rightarrow>
                          if \<not> has_client then Inl AttributeError
                          else and_then (json_to_object j) (\<lambda>(n, _). Inr (VObj n))))
            | _ \<Rightarrow> Inl AttributeError))"

text \<open>
  A \<open>LazyAttribute\<close>: its URL, \<open>_name\<close> and \<open>_value\<close>. The constructor parses the
  \<open>value\<close> argument (\<open>None\<close> by default) with \<open>_parse_json\<close> before it calls
  \<open>SPObject.__init__\<close>, which is what sets \<open>_api_client\<close>.
\<close>

record lazy_attribute =
  attr_url :: string
  attr_name :: string
  attr_value :: pyval

definition LazyAttribute_init :: "string \<Rightarrow> string \<Rightarrow> json \<Rightarrow> pyerror + lazy_attribute" where
  "LazyAttribute_init u name val =
     and_then (parse_json name False val)
       (\<lambda>v. Inr \<lparr>attr_url = u, attr_name = name, attr_value = v\<rparr>)"

text \<open>\<open>LazyAttribute.value(self, query=None)\<close>: the result, the client and the attribute after the call.\<close>

definition LazyAttribute_value ::
  "env \<Rightarrow> client \<Rightarrow> lazy_attribute \<Rightarrow> payload \<Rightarrow> (pyerror + pyval) \<times> client \<times> lazy_attribute" where
  "LazyAttribute_value e c la query =
     (if \<not> truthy_val (attr_value la) then
        (case get e c (attr_url la) query of
           (Inl x, c1) \<Rightarrow> (Inl x, c1, la)
         | (Inr r, c1) \<Rightarrow>
             (case and_then (and_then (response_json r) (\<lambda>j. subscript j ''d''))
                     (parse_json (attr_name la) True) of
                Inl x \<Rightarrow> (Inl x, c1, la)
              | Inr v \<Rightarrow> (Inr v, c1, la\<lparr>attr_value := v\<rparr>)))
      else (Inr (attr_value la), c, la))"

text \<open>
  \<open>SPObject.attribute(self, name)\<close>: the result, the client and the node after the
  call. \<open>_attribute_url\<close> concatenates, which needs the endpoint URL to be a string.
\<close>

definition attribute ::
  "env \<Rightarrow> client \<Rightarrow> node \<Rightarrow> string \<Rightarrow> (pyerror + pyval) \<times> client \<times> node" where
  "attribute e c self name =
     (case map_of (attributes self) name of
        Some v \<Rightarrow> (Inr v, c, self)
      | None \<Rightarrow>
          (case endpoint_url self of
             JStr u \<Rightarrow>
               (case LazyAttribute_init (u @ ''/'' @ name) name JNull of
                  Inl x \<Rightarrow> (Inl x, c, self)
                | Inr la \<Rightarrow>
                    (case LazyAttribute_value e c la NoPayload of
                       (Inl x, c1, la1) \<Rightarrow> (Inl x, c1, self)
                     | (Inr v, c1, la1) \<Rightarrow>
                         (Inr v, c1,
                          Node (cls self) (endpoint_url self)
                            (AList.update name v (attributes self)))))
           | _ \<Rightarrow> (Inl TypeError, c, self)))"

text \<open>
  Two calls of \<open>attribute(name)\<close> in a row, as in \<open>n.attribute(name); n.attribute(name)\<close>:
  an exception of the first call ends the sequence.
\<close>

definition attribute_twice ::
  "env \<Rightarrow> client \<Rightarrow> node \<Rightarrow> string \<Rightarrow> (pyerror + pyval) \<times> client \<times> node" where
  "attribute_twice e c self name =
     (case attribute e c self name of
        (Inl x, c1, self1) \<Rightarrow> (Inl x, c1, self1)
      | (Inr v, c1, self1) \<Rightarrow> attribute e c1 self1 name)"


section \<open>Chunked upload: \<open>SPFolder._stream_upload\<close>\<close>

text \<open>
  The local file as the open handle \<open>f\<close> sees it: its bytes, the read position, and
  whether \<open>f.close()\<close> has been called. \<open>f.read(n)\<close> returns the next (at most) \<open>n\<close>
  bytes and advances the position, or raises where the disk has a read error.
\<close>

record file_handle =
  file_bytes :: "8 word list"
  file_pos :: nat
  file_closed :: bool

definition f_read :: "env \<Rightarrow> file_handle \<Rightarrow> nat \<Rightarrow> (pyerror + 8 word list) \<times> file_handle" where
  "f_read e f n =
     (if read_error e (file_pos f) then (Inl IOError, f)
      else (let chunk = take n (drop (file_pos f) (file_bytes f))
            in (Inr chunk, f\<lparr>file_pos := file_pos f + length chunk\<rparr>)))"

text \<open>
  The four remote calls of the upload: the method, the \<open>fileOffset\<close> argument and the
  bytes sent. \<open>call_string\<close> is the call string that \<open>_method_post\<close> appends to the URL
  of the target file node; \<open>cancelupload\<close> gets the session id as a positional argument,
  the others as \<open>uploadId\<close>.
\<close>

datatype upload_call =
  StartUpload "8 word list"
  | ContinueUpload nat "8 word list"
  | FinishUpload nat "8 word list"
  | CancelUpload

fun call_string :: "128 word \<Rightarrow> upload_call \<Rightarrow> pyerror + string" where
  "call_string guid (StartUpload chunk) =
     make_call_string ''startupload'' [] [(''uploadId'', PUuid guid)]"
| "call_string guid (ContinueUpload offset chunk) =
     make_call_string ''continueupload'' []
       [(''uploadId'', PUuid guid), (''fileOffset'', PInt (int offset))]"
| "call_string guid (FinishUpload offset chunk) =
     make_call_string ''finishupload'' []
       [(''uploadId'', PUuid guid), (''fileOffset'', PInt (int offset))]"
| "call_string guid CancelUpload = make_call_string ''cancelupload'' [PUuid guid] []"

fun call_payload :: "upload_call \<Rightarrow> payload" where
  "call_payload (StartUpload chunk) = Data chunk"
| "call_payload (ContinueUpload offset chunk) = Data chunk"
| "call_payload (FinishUpload offset chunk) = Data chunk"
| "call_payload CancelUpload = NoPayload"

text \<open>
  \<open>file._method_post(...).send()\<close>: \<open>_method_post\<close> builds the call string, and
  \<open>send\<close> is a POST through the client to the file node's URL followed by it.
\<close>

definition send_call ::
  "env \<Rightarrow> client \<Rightarrow> string \<Rightarrow> 128 word \<Rightarrow> upload_call \<Rightarrow> (pyerror + response) \<times> client" where
  "send_call e c file_url guid call =
     (case call_string guid call of
        Inl x \<Rightarrow> (Inl x, c)
      | Inr req_string \<Rightarrow> post e c (file_url @ req_string) (call_payload call))"

text \<open>The chunk size that \<open>upload_file\<close> passes to \<open>_stream_upload\<close>.\<close>

definition upload_chunk_size :: nat where
  "upload_chunk_size = 1024 * 1024"

text \<open>
  The variables of the loop: the client, the file handle, \<open>offset\<close>, \<open>first_chunk\<close>,
  and a ghost list of the calls issued so far.
\<close>

record upload_state =
  up_client :: client
  up_file :: file_handle
  up_offset :: nat
  up_first_chunk :: bool
  up_calls :: "upload_call list"

text \<open>
  The \<open>while True\<close> loop inside the \<open>try\<close>. It ends with \<open>None\<close> at the \<open>break\<close>, or
  with the exception that a read or a call raised; a loop that never ends has no
  result. \<open>file_size\<close> and \<open>chunk_size\<close> are the arguments of \<open>_stream_upload\<close>.
\<close>

partial_function (option) upload_loop ::
  "env \<Rightarrow> string \<Rightarrow> 128 word \<Rightarrow> nat \<Rightarrow> nat \<Rightarrow> upload_state
     \<Rightarrow> (pyerror option \<times> upload_state) option" where
  "upload_loop e file_url guid file_size chunk_size st =
     (case f_read e (up_file st) chunk_size of
        (Inl x, f1) \<Rightarrow> Some (Some x, st\<lparr>up_file := f1\<rparr>)
      | (Inr chunk, f1) \<Rightarrow>
          if up_first_chunk st then
            (case send_call e (up_client st) file_url guid (StartUpload chunk) of
               (Inl x, c1) \<Rightarrow>
                 Some (Some x, st\<lparr>up_client := c1, up_file := f1,
                                  up_calls := up_calls st @ [StartUpload chunk]\<rparr>)
             | (Inr r, c1) \<Rightarrow>
                 upload_loop e file_url guid file_size chunk_size
                   (st\<lparr>up_client := c1, up_file := f1, up_first_chunk := False,
                       up_offset := up_offset st + length chunk,
                       up_calls := up_calls st @ [StartUpload chunk]\<rparr>))
          else if int file_size - int chunk_size \<le> int (up_offset st) then
            (case send_call e (up_client st) file_url guid (FinishUpload (up_offset st) chunk) of
               (Inl x, c1) \<Rightarrow>
                 Some (Some x, st\<lparr>up_client := c1, up_file := f1,
                                  up_calls := up_calls st @ [FinishUpload (up_offset st) chunk]\<rparr>)
             | (Inr r, c1) \<Rightarrow>
                 Some (None, st\<lparr>up_client := c1, up_file := f1,
                                up_calls := up_calls st @ [FinishUpload (up_offset st) chunk]\<rparr>))
          else
            (case send_call e (up_client st) file_url guid (ContinueUpload (up_offset st) chunk) of
               (Inl x, c1) \<Rightarrow>
                 Some (Some x, st\<lparr>up_client := c1, up_file := f1,
                                  up_calls := up_calls st @ [ContinueUpload (up_offset st) chunk]\<rparr>)
             | (Inr r, c1) \<Rightarrow>
                 upload_loop e file_url guid file_size chunk_size
                   (st\<lparr>up_client := c1, up_file := f1,
                       up_offset := up_offset st + length chunk,
                       up_calls := up_calls st @ [ContinueUpload (up_offset st) chunk]\<rparr>)))"

text \<open>
  \<open>_stream_upload\<close> from the \<open>try\<close> on, for the target file node at \<open>file_url\<close>, the
  session id \<open>guid\<close> and the freshly opened file \<open>f\<close>. The \<open>except\<close> clause closes the
  file and sends the cancel call; it has no \<open>raise\<close>, so the function then returns
  normally unless the cancel call itself raises.
\<close>

definition stream_upload ::
  "env \<Rightarrow> client \<Rightarrow> string \<Rightarrow> 128 word \<Rightarrow> file_handle \<Rightarrow> nat \<Rightarrow> nat
     \<Rightarrow> ((pyerror + unit) \<times> upload_state) option" where
  "stream_upload e c file_url guid f file_size chunk_size =
     (case upload_loop e file_url guid file_size chunk_size
             \<lparr>up_client = c, up_file = f, up_offset = 0, up_first_chunk = True, up_calls = []\<rparr> of
        None \<Rightarrow> None
      | Some (None, st) \<Rightarrow> Some (Inr (), st)
      | Some (Some x, st) \<Rightarrow>
          (let st1 = st\<lparr>up_file := (up_file st)\<lparr>file_closed := True\<rparr>\<rparr>
           in case send_call e (up_client st1) file_url guid CancelUpload of
                (Inl y, c1) \<Rightarrow>
                  Some (Inl y, st1\<lparr>up_client := c1, up_calls := up_calls st1 @ [CancelUpload]\<rparr>)
              | (Inr r, c1) \<Rightarrow>
                  Some (Inr (), st1\<lparr>up_client := c1, up_calls := up_calls st1 @ [CancelUpload]\<rparr>)))"

text \<open>
  The calls that follow the start call, in the words of the specification: from the
  second chunk on, the chunk read at \<open>offset\<close> goes to \<open>finishupload\<close> if
  \<open>offset \<ge> file_size - chunk_size\<close> and ends the sequence, and to \<open>continueupload\<close>
  otherwise.
\<close>

function later_calls :: "nat \<Rightarrow> nat \<Rightarrow> 8 word list \<Rightarrow> nat \<Rightarrow> upload_call list" where
  "later_calls file_size chunk_size bs offset =
     (if chunk_size = 0 \<or> file_size \<le> offset + chunk_size
      then [FinishUpload offset (take chunk_size (drop offset bs))]
      else ContinueUpload offset (take chunk_size (drop offset bs))
             # later_calls file_size chunk_size bs (offset + chunk_size))"
  by pat_completeness auto
termination
  by (relation "measure (\<lambda>(file_size, chunk_size, bs, offset). file_size - offset)") auto

declare later_calls.simps [simp del]

fun is_finish :: "upload_call \<Rightarrow> bool" where
  "is_finish (FinishUpload offset chunk) = True"
| "is_finish _ = False"

fun call_offset :: "upload_call \<Rightarrow> nat" where
  "call_offset (StartUpload chunk) = 0"
| "call_offset (ContinueUpload offset chunk) = offset"
| "call_offset (FinishUpload offset chunk) = offset"
| "call_offset CancelUpload = 0"

text \<open>
  The request that each call of the upload has to put on the wire, in the words of the
  specification: a POST to the file node's URL followed by the method name with the
  session id and, except for start, the byte offset, carrying the chunk's bytes.
\<close>

fun upload_request :: "string \<Rightarrow> 128 word \<Rightarrow> upload_call \<Rightarrow> http_method \<times> string \<times> payload" where
  "upload_request file_url guid (StartUpload chunk) =
     (POST, file_url @ ''/startupload(uploadId=guid'' @ [CHR 0x27] @ str_uuid guid @ [CHR 0x27] @ '')'',
      Data chunk)"
| "upload_request file_url guid (ContinueUpload offset chunk) =
     (POST, file_url @ ''/continueupload(uploadId=guid'' @ [CHR 0x27] @ str_uuid guid @ [CHR 0x27]
              @ '', fileOffset='' @ str_int (int offset) @ '')'',
      Data chunk)"
| "upload_request file_url guid (FinishUpload offset chunk) =
     (POST, file_url @ ''/finishupload(uploadId=guid'' @ [CHR 0x27] @ str_uuid guid @ [CHR 0x27]
              @ '', fileOffset='' @ str_int (int offset) @ '')'',
      Data chunk)"
| "upload_request file_url guid CancelUpload =
     (POST, file_url @ ''/cancelupload(guid'' @ [CHR 0x27] @ str_uuid guid @ [CHR 0x27] @ '')'',
      NoPayload)"

text \<open>
  What is observed on the wire: of a list of sent requests, the method, the URL and the
  body of those that carry a body (a token renewal carries none), and the ones without
  a body.
\<close>

definition with_body :: "request list \<Rightarrow> (http_method \<times> string \<times> payload) list" where
  "with_body rqs =
     map (\<lambda>rq. (meth rq, target rq, content rq)) (filter (\<lambda>rq. content rq \<noteq> NoPayload) rqs)"

definition without_body :: "request list \<Rightarrow> request list" where
  "without_body rqs = filter (\<lambda>rq. content rq = NoPayload) rqs"

section \<open>Example servers\<close>

text \<open>
  A server that answers the \<open>k\<close>-th request it receives with the \<open>k\<close>-th response of
  a script and every later request with a default response, next to a clock and a local
  disk without read errors; a successful response with a JSON body, a failed one, and
  the body of a context-info response.
\<close>

definition scripted :: "response list \<Rightarrow> response \<Rightarrow> (nat \<Rightarrow> int) \<Rightarrow> env" where
  "scripted rs dflt clk =
     \<lparr>server = (\<lambda>lg. if length lg - 1 < length rs then rs ! (length lg - 1) else dflt),
      clock = clk, read_error = (\<lambda>p. False)\<rparr>"

definition ok_json :: "json \<Rightarrow> response" where
  "ok_json j = \<lparr>ok = True, decoded = Some j\<rparr>"

definition server_error :: response where
  "server_error = \<lparr>ok = False, decoded = None\<rparr>"

definition contextinfo_body :: "string \<Rightarrow> int \<Rightarrow> json" where
  "contextinfo_body tok secs =
     JDict [(''d'', JDict [(''GetContextWebInformation'',
        JDict [(''FormDigestValue'', JStr tok), (''FormDigestTimeoutSeconds'', JInt secs)])])]"

definition new_client :: "string \<Rightarrow> int \<Rightarrow> client" where
  "new_client api now = \<lparr>api_url = api, headers = [], expire = now, sent = [], ticks = 0\<rparr>"

section \<open>Properties of \<open>walk\<close>\<close>

lemma walk_no_descent:
  "m \<le> 1 \<Longrightarrow> walk self topdown (Some m) = [(self, folders self, files self)]"
  by (cases self; cases topdown) simp_all

lemma walk_topdown_bounded:
  "map fst (walk t True (Some (int (Suc d)))) = upto_depth (Suc d) t"
proof (induction d arbitrary: t)
  case 0
  show ?case by (cases t) simp
next
  case (Suc d)
  obtain u fs subs where t: "t = Folder u fs subs" by (cases t)
  have "map fst (concat (map (\<lambda>f. walk f True (Some (int (Suc d)))) subs))
        = concat (map (upto_depth (Suc d)) subs)"
    using Suc.IH by (simp add: map_concat comp_def)
  then show ?case
    unfolding t by (simp add: comp_def)
qed

text \<open>
  C4. On the chain root, A, B, C, \<open>walk(maxdepth=1)\<close> yields only the root's triple and
  \<open>walk(maxdepth=2)\<close> yields the root's and A's triples (in either order of traversal)
  without reaching B. In general \<open>walk\<close> recurses into the child folders only when
  \<open>maxdepth\<close> is \<open>None\<close> or greater than 1, the child call gets \<open>maxdepth - 1\<close>
  (\<open>None\<close> when \<open>maxdepth\<close> is \<open>None\<close>), and a top-down walk bounded by \<open>d \<ge> 1\<close>
  yields exactly the folders fewer than \<open>d\<close> levels below the start.
\<close>

theorem walk_depth_bound:
  "(let C = Folder c fc []; B = Folder b fb [C]; A = Folder a fa [B]; R = Folder r fr [A]
    in walk R topdown (Some 1) = [(R, [A], fr)]
     \<and> walk R True (Some 2) = [(R, [A], fr), (A, [B], fa)]
     \<and> walk R False (Some 2) = [(A, [B], fa), (R, [A], fr)])
   \<and> walk self topdown maxdepth =
       (if topdown then [(self, folders self, files self)] else []) @
       (if maxdepth = None then concat (map (\<lambda>f. walk f topdown None) (folders self))
        else if 1 < the maxdepth
          then concat (map (\<lambda>f. walk f topdown (Some (the maxdepth - 1))) (folders self))
        else []) @
       (if topdown then [] else [(self, folders self, files self)])
   \<and> map fst (walk self True (Some (int (Suc d)))) = upto_depth (Suc d) self"
proof -
  have gen: "walk self topdown maxdepth =
       (if topdown then [(self, folders self, files self)] else []) @
       (if maxdepth = None then concat (map (\<lambda>f. walk f topdown None) (folders self))
        else if 1 < the maxdepth
          then concat (map (\<lambda>f. walk f topdown (Some (the maxdepth - 1))) (folders self))
        else []) @
       (if topdown then [] else [(self, folders self, files self)])"
    by (cases self; cases maxdepth) auto
  have chain: "let C = Folder c fc []; B = Folder b fb [C]; A = Folder a fa [B]; R = Folder r fr [A]
    in walk R topdown (Some 1) = [(R, [A], fr)]
     \<and> walk R True (Some 2) = [(R, [A], fr), (A, [B], fa)]
     \<and> walk R False (Some 2) = [(A, [B], fa), (R, [A], fr)]"
    by (simp add: Let_def)
  show ?thesis
    using gen chain walk_topdown_bounded by blast
qed

lemma descendants_size: "s \<in> descendants t \<Longrightarrow> size s < size t"
proof (induction t arbitrary: s)
  case (Folder u fs subs)
  from Folder.prems obtain c where c: "c \<in> set subs" "s = c \<or> s \<in> descendants c"
    by auto
  have "size c < size (Folder u fs subs)"
    using c(1) by (simp add: size_list_estimation' less_Suc_eq_le)
  moreover have "size s \<le> size c"
    using c Folder.IH[of c s] by auto
  ultimately show ?case by simp
qed

lemma not_self_descendant: "t \<notin> descendants t"
  using descendants_size by blast

lemma descendants_trans:
  "a \<in> descendants b \<Longrightarrow> b \<in> descendants c \<Longrightarrow> a \<in> descendants c"
proof (induction c arbitrary: b)
  case (Folder u fs subs)
  from Folder.prems(2) obtain s where s: "s \<in> set subs" "b = s \<or> b \<in> descendants s"
    by auto
  have "a \<in> descendants s"
    using s Folder.IH[of s b] Folder.prems(1) by auto
  then show ?case using s(1) by auto
qed

lemma url_in_all_urls: "url t \<in> set (all_urls t)"
  by (cases t) simp

lemma descendant_url: "s \<in> descendants t \<Longrightarrow> url s \<in> set (all_urls t)"
proof (induction t arbitrary: s)
  case (Folder u fs subs)
  from Folder.prems obtain c where c: "c \<in> set subs" "s = c \<or> s \<in> descendants c"
    by auto
  have "url s \<in> set (all_urls c)"
    using c Folder.IH[of c s] url_in_all_urls by auto
  then show ?case using c(1) by auto
qed

lemma walk_tops: "fst ` set (walk t topdown maxdepth) \<subseteq> insert t (descendants t)"
proof (induction t arbitrary: maxdepth)
  case (Folder u fs subs)
  show ?case
    using Folder.IH by (fastforce split: if_splits)
qed

lemma walk_covers: "fst ` set (walk t topdown None) = insert t (descendants t)"
proof (induction t)
  case (Folder u fs subs)
  show ?case
    using Folder.IH by (cases topdown) (auto simp: image_Un image_UN)
qed

lemma blocks_unrelated:
  assumes "set (all_urls s1) \<inter> set (all_urls s2) = {}"
    and "fst x \<in> insert s1 (descendants s1)" and "fst y \<in> insert s2 (descendants s2)"
  shows "fst x \<notin> descendants (fst y) \<and> fst y \<notin> descendants (fst x)"
proof -
  have ux: "url (fst x) \<in> set (all_urls s1)" and uy: "url (fst y) \<in> set (all_urls s2)"
    using assms(2,3) url_in_all_urls descendant_url by auto
  have "fst x \<in> descendants (fst y) \<Longrightarrow> fst x \<in> descendants s2"
    using assms(3) descendants_trans by auto
  moreover have "fst y \<in> descendants (fst x) \<Longrightarrow> fst y \<in> descendants s1"
    using assms(2) descendants_trans by auto
  ultimately show ?thesis
    using ux uy assms(1) descendant_url by blast
qed

lemma sorted_wrt_blocks:
  assumes "distinct (concat (map all_urls subs))"
    and "\<And>s. s \<in> set subs \<Longrightarrow> sorted_wrt P (f s)"
    and "\<And>s. s \<in> set subs \<Longrightarrow> fst ` set (f s) \<subseteq> insert s (descendants s)"
    and "\<And>x y. fst x \<notin> descendants (fst y) \<and> fst y \<notin> descendants (fst x) \<Longrightarrow> P x y"
  shows "sorted_wrt P (concat (map f subs))"
  using assms(1-3)
proof (induction subs)
  case Nil
  show ?case by simp
next
  case (Cons s subs)
  have rest: "sorted_wrt P (concat (map f subs))"
    using Cons by simp
  have cross: "P x y" if x: "x \<in> set (f s)" and y: "y \<in> set (concat (map f subs))" for x y
  proof -
    from y obtain s2 where s2: "s2 \<in> set subs" "y \<in> set (f s2)" by auto
    have disj: "set (all_urls s) \<inter> set (all_urls s2) = {}"
      using Cons.prems(1) s2(1) by auto
    have "fst x \<in> insert s (descendants s)" using Cons.prems(3)[of s] x by auto
    moreover have "fst y \<in> insert s2 (descendants s2)" using Cons.prems(3)[of s2] s2 by auto
    ultimately show ?thesis using blocks_unrelated[OF disj] assms(4) by blast
  qed
  show ?case
    using rest cross Cons.prems(2)[of s] by (simp add: sorted_wrt_append)
qed

lemma walk_sorted:
  "distinct (all_urls t) \<Longrightarrow>
     sorted_wrt (\<lambda>x y. fst x \<notin> descendants (fst y)) (walk t True maxdepth) \<and>
     sorted_wrt (\<lambda>x y. fst y \<notin> descendants (fst x)) (walk t False maxdepth)"
proof (induction t arbitrary: maxdepth)
  case (Folder u fs subs)
  let ?T = "Folder u fs subs"
  have d: "distinct (concat (map all_urls subs))" using Folder.prems by simp
  have dsub: "distinct (all_urls s)" if "s \<in> set subs" for s
    using d that by (simp add: distinct_concat_iff)
  have below: "fst y \<in> descendants ?T"
    if "y \<in> set (concat (map (\<lambda>f. walk f td md) subs))" for y td md
  proof -
    from that obtain s where s: "s \<in> set subs" "y \<in> set (walk s td md)" by auto
    then have "fst y \<in> insert s (descendants s)" using walk_tops by blast
    then show ?thesis using s(1) by auto
  qed
  have top_first: "?T \<notin> descendants (fst y)"
    if "y \<in> set (concat (map (\<lambda>f. walk f td md) subs))" for y td md
    using below[OF that] descendants_size[of "fst y" ?T] descendants_size[of ?T "fst y"] by auto
  have down: "sorted_wrt (\<lambda>x y. fst x \<notin> descendants (fst y))
                (concat (map (\<lambda>f. walk f True md) subs))" for md
    by (rule sorted_wrt_blocks[OF d]) (use Folder.IH dsub walk_tops in auto)
  have up: "sorted_wrt (\<lambda>x y. fst y \<notin> descendants (fst x))
                (concat (map (\<lambda>f. walk f False md) subs))" for md
    by (rule sorted_wrt_blocks[OF d]) (use Folder.IH dsub walk_tops in auto)
  define nd where "nd = (if maxdepth \<noteq> None \<and> maxdepth \<noteq> Some 0 then Some (the maxdepth - 1) else None)"
  define mid where "mid td = (if maxdepth = None \<or> 1 < the maxdepth
      then concat (map (\<lambda>f. walk f td nd) subs) else [])" for td
  have w1: "walk ?T True maxdepth = (?T, subs, fs) # mid True"
    and w2: "walk ?T False maxdepth = mid False @ [(?T, subs, fs)]"
    by (simp_all add: mid_def nd_def)
  have m1: "sorted_wrt (\<lambda>x y. fst x \<notin> descendants (fst y)) (mid True)"
    and m2: "sorted_wrt (\<lambda>x y. fst y \<notin> descendants (fst x)) (mid False)"
    using down up by (simp_all add: mid_def)
  have m3: "?T \<notin> descendants (fst y)" if "y \<in> set (mid td)" for y td
    using that top_first[of y td nd] by (simp add: mid_def split: if_splits)
  show ?case
    unfolding w1 w2 using m1 m2 m3 by (simp add: sorted_wrt_append)
qed

text \<open>
  C5. \<open>walk(maxdepth=-1)\<close> does not descend at all: \<open>-1 > 1\<close> is false, so it yields
  the start folder's triple only, whereas \<open>walk(maxdepth=None)\<close> yields a triple for
  every folder of the subtree. The docstring of \<open>download\<close> ("To get all subfolders,
  set level to -1") promises the unbounded walk; \<open>download\<close> passes \<open>maxdepth\<close> on
  unchanged and so visits the start folder only.
\<close>

theorem walk_minus_one_stops:
  "walk self topdown (Some (- 1)) = [(self, folders self, files self)]
   \<and> (let A = Folder ''/r/a'' [''/r/a/f''] []; R = Folder ''/r'' [] [A]
      in walk R True (Some (- 1)) = [(R, [A], [])]
       \<and> walk R True None = [(R, [A], []), (A, [], [''/r/a/f''])]
       \<and> download_folders R (Some (- 1)) = [R]
       \<and> download_folders R None = [R, A])"
proof -
  have "walk self topdown (Some (- 1)) = [(self, folders self, files self)]"
    by (rule walk_no_descent) simp
  then show ?thesis
    by (simp add: Let_def download_folders_def)
qed

text \<open>
  C6. In a tree whose folders have pairwise different URLs, a top-down walk yields the
  triple of a folder before the triple of each of its descendants, and a bottom-up walk
  yields the triple of each descendant before the folder's own; this holds for every
  folder that occurs in the walk, whatever the depth bound. The start folder's triple
  is the first one top-down and the last one bottom-up, and an unbounded walk yields a
  triple for the start folder and for every descendant.
\<close>

theorem walk_order:
  assumes "distinct (all_urls t)"
  shows "(\<forall>i j. i < length (walk t True maxdepth) \<and> j < length (walk t True maxdepth) \<and>
            fst (walk t True maxdepth ! j) \<in> descendants (fst (walk t True maxdepth ! i))
            \<longrightarrow> i < j)
       \<and> (\<forall>i j. i < length (walk t False maxdepth) \<and> j < length (walk t False maxdepth) \<and>
            fst (walk t False maxdepth ! j) \<in> descendants (fst (walk t False maxdepth ! i))
            \<longrightarrow> j < i)
       \<and> hd (walk t True maxdepth) = (t, folders t, files t)
       \<and> last (walk t False maxdepth) = (t, folders t, files t)
       \<and> fst ` set (walk t topdown None) = insert t (descendants t)"
proof -
  have down: "sorted_wrt (\<lambda>x y. fst x \<notin> descendants (fst y)) (walk t True maxdepth)"
    and up: "sorted_wrt (\<lambda>x y. fst y \<notin> descendants (fst x)) (walk t False maxdepth)"
    using walk_sorted[OF assms] by simp_all
  have a: "i < j"
    if "i < length (walk t True maxdepth)" "j < length (walk t True maxdepth)"
       "fst (walk t True maxdepth ! j) \<in> descendants (fst (walk t True maxdepth ! i))" for i j
  proof (rule ccontr)
    assume "\<not> i < j"
    then consider "i = j" | "j < i" by linarith
    then show False
    proof cases
      case 1
      then show False using that(3) not_self_descendant by simp
    next
      case 2
      then show False using sorted_wrt_nth_less[OF down 2 that(1)] that(3) by simp
    qed
  qed
  have b: "j < i"
    if "i < length (walk t False maxdepth)" "j < length (walk t False maxdepth)"
       "fst (walk t False maxdepth ! j) \<in> descendants (fst (walk t False maxdepth ! i))" for i j
  proof (rule ccontr)
    assume "\<not> j < i"
    then consider "i = j" | "i < j" by linarith
    then show False
    proof cases
      case 1
      then show False using that(3) not_self_descendant by simp
    next
      case 2
      then show False using sorted_wrt_nth_less[OF up 2 that(2)] that(3) by simp
    qed
  qed
  have c: "hd (walk t True maxdepth) = (t, folders t, files t)"
    and d: "last (walk t False maxdepth) = (t, folders t, files t)"
    by (cases t; simp)+
  show ?thesis
    using a b c d walk_covers by blast
qed

theorem walk_order_witness:
  "(let B = Folder ''/r/a/b'' [] []; A = Folder ''/r/a'' [''/r/a/f''] [B];
        D = Folder ''/r/d'' [] []; R = Folder ''/r'' [] [A, D]
    in distinct (all_urls R)
     \<and> map fst (walk R True None) = [R, A, B, D]
     \<and> map fst (walk R False None) = [B, A, D, R]
     \<and> hd (walk R True (Some 2)) = (R, [A, D], [])
     \<and> last (walk R False (Some 2)) = (R, [A, D], [])
     \<and> fst ` set (walk R True None) = insert R (descendants R))"
proof -
  define B where "B = Folder ''/r/a/b'' [] []"
  define A where "A = Folder ''/r/a'' [''/r/a/f''] [B]"
  define D where "D = Folder ''/r/d'' [] []"
  define R where "R = Folder ''/r'' [] [A, D]"
  have dist: "distinct (all_urls R)"
    by (simp add: R_def A_def B_def D_def)
  have "map fst (walk R True None) = [R, A, B, D]"
    and "map fst (walk R False None) = [B, A, D, R]"
    by (simp_all add: R_def A_def B_def D_def)
  moreover have "hd (walk R True (Some 2)) = (R, folders R, files R)"
    and "last (walk R False (Some 2)) = (R, folders R, files R)"
    and "fst ` set (walk R True None) = insert R (descendants R)"
    using walk_order[OF dist] by blast+
  ultimately show ?thesis
    using dist by (simp add: Let_def R_def A_def B_def D_def)
qed

section \<open>Properties of the call strings\<close>



lemma replace_apostrophe_append:
  "replace_apostrophe (s @ t) = replace_apostrophe s @ replace_apostrophe t"
  by (simp add: replace_apostrophe_def)


lemma hex32_example:
  "hex32 0x12345678123456781234567812345678 = ''12345678123456781234567812345678''"
  by code_simp

lemma str_uuid_example:
  "str_uuid 0x12345678123456781234567812345678 = ''12345678-1234-5678-1234-567812345678''"
  by (simp add: str_uuid_def hex32_example)





section \<open>Properties of the API client\<close>

lemma and_then_Inr: "and_then x f = Inr y \<longleftrightarrow> (\<exists>a. x = Inr a \<and> f a = Inr y)"
  by (cases x) simp_all

lemma and_then_Inl: "and_then x f = Inl z \<longleftrightarrow> x = Inl z \<or> (\<exists>a. x = Inr a \<and> f a = Inl z)"
  by (cases x) simp_all

lemma session_request_eq:
  "session_request e c m u p =
     (server e (sent c @ [\<lparr>meth = m, target = u, sent_headers = headers c, content = p\<rparr>]),
      c\<lparr>sent := sent c @ [\<lparr>meth = m, target = u, sent_headers = headers c, content = p\<rparr>]\<rparr>)"
  by (simp add: session_request_def Let_def)

lemma digest_unexpired:
  "clock e (ticks c) < expire c \<Longrightarrow> digest e c = (Inr (), c\<lparr>ticks := ticks c + 1\<rparr>)"
  by (simp add: digest_def Let_def)

lemma digest_renewed:
  assumes "expire c \<le> clock e (ticks c)" and "renewal e c = Inr (tok, t)"
  shows "digest e c =
           (Inr (), c\<lparr>ticks := ticks c + 2, sent := sent c @ [renewal_request c],
                       headers := AList.update ''X-RequestDigest'' tok (headers c),
                       expire := t\<rparr>)"
proof -
  let ?r = "server e (sent c @ [renewal_request c])"
  from assms(2) obtain delta where r:
    "check_response ?r = Inr ()" "renewal_token ?r = Inr tok" "renewal_timeout ?r = Inr delta"
    "add_timedelta (clock e (Suc (ticks c))) delta = Inr t"
    by (auto simp: renewal_def Let_def and_then_Inr)
  from r(2) obtain info where i: "contextinfo ?r = Inr info" "subscript info ''FormDigestValue'' = Inr tok"
    by (auto simp: renewal_token_def and_then_Inr)
  from r(3) i(1) have d: "and_then (subscript info ''FormDigestTimeoutSeconds'') timedelta_seconds = Inr delta"
    by (simp add: renewal_timeout_def)
  have rq: "\<lparr>meth = POST, target = api_url c @ ''/contextinfo'', sent_headers = headers c,
             content = NoPayload\<rparr> = renewal_request c"
    by (simp add: renewal_request_def)
  show ?thesis
    using assms(1) r(1,4) i d
    by (simp add: digest_def Let_def session_request_eq rq)
qed

lemma digest_renewal_failed:
  assumes "expire c \<le> clock e (ticks c)" and "renewal e c = Inl x"
  shows "fst (digest e c) = Inl x"
    and "sent (snd (digest e c)) = sent c @ [renewal_request c]"
    and "expire (snd (digest e c)) = expire c"
proof -
  let ?r = "server e (sent c @ [renewal_request c])"
  have rq: "\<lparr>meth = POST, target = api_url c @ ''/contextinfo'', sent_headers = headers c,
             content = NoPayload\<rparr> = renewal_request c"
    by (simp add: renewal_request_def)
  show "sent (snd (digest e c)) = sent c @ [renewal_request c]"
    using assms(1)
    by (simp add: digest_def Let_def session_request_eq rq split: sum.splits)
  show "expire (snd (digest e c)) = expire c"
    using assms
    by (auto simp: digest_def Let_def session_request_eq rq renewal_def renewal_token_def
        renewal_timeout_def and_then_Inl split: sum.splits)
  show "fst (digest e c) = Inl x"
    using assms
    by (auto simp: digest_def Let_def session_request_eq rq renewal_def renewal_token_def
        renewal_timeout_def and_then_Inl and_then_Inr split: sum.splits)
qed

lemma post_unexpired:
  assumes "clock e (ticks c) < expire c"
  shows "post e c u d =
      (and_then (check_response (server e (sent c @
           [\<lparr>meth = POST, target = u, sent_headers = headers c, content = d\<rparr>])))
         (\<lambda>_. Inr (server e (sent c @
           [\<lparr>meth = POST, target = u, sent_headers = headers c, content = d\<rparr>]))),
       c\<lparr>ticks := ticks c + 1,
          sent := sent c @ [\<lparr>meth = POST, target = u, sent_headers = headers c, content = d\<rparr>]\<rparr>)"
  using assms
  by (simp add: post_def http_def upper_def digest_unexpired session_request_eq)

lemma post_renewed:
  assumes "expire c \<le> clock e (ticks c)" and "renewal e c = Inr (tok, t)"
  shows "post e c u d =
     (let H = AList.update ''X-RequestDigest'' tok (headers c);
          rq = \<lparr>meth = POST, target = u, sent_headers = H, content = d\<rparr>;
          r = server e (sent c @ [renewal_request c, rq])
      in (and_then (check_response r) (\<lambda>_. Inr r),
          c\<lparr>ticks := ticks c + 2, sent := sent c @ [renewal_request c, rq],
             headers := H, expire := t\<rparr>))"
  by (simp add: post_def http_def upper_def digest_renewed[OF assms] session_request_eq Let_def)

lemma post_renewal_failed:
  assumes "expire c \<le> clock e (ticks c)" and "renewal e c = Inl x"
  shows "fst (post e c u d) = Inl x"
    and "sent (snd (post e c u d)) = sent c @ [renewal_request c]"
    and "expire (snd (post e c u d)) = expire c"
proof -
  obtain r c1 where d: "digest e c = (r, c1)" by (cases "digest e c")
  have r: "r = Inl x" and c1: "sent c1 = sent c @ [renewal_request c]" "expire c1 = expire c"
    using digest_renewal_failed[OF assms] d by simp_all
  have "post e c u d = (Inl x, c1)"
    by (simp add: post_def http_def upper_def d r)
  then show "fst (post e c u d) = Inl x"
    and "sent (snd (post e c u d)) = sent c @ [renewal_request c]"
    and "expire (snd (post e c u d)) = expire c"
    using c1 by simp_all
qed

lemma get_no_renewal:
  "get e c u p =
     (and_then (check_response (server e (sent c @
           [\<lparr>meth = GET, target = u, sent_headers = headers c, content = p\<rparr>])))
         (\<lambda>_. Inr (server e (sent c @
           [\<lparr>meth = GET, target = u, sent_headers = headers c, content = p\<rparr>]))),
      c\<lparr>sent := sent c @ [\<lparr>meth = GET, target = u, sent_headers = headers c, content = p\<rparr>]\<rparr>)"
  by (simp add: get_def http_def upper_def session_request_eq)

lemma http_verbs:
  "upper verb = ''POST'' \<Longrightarrow> http e c verb u p = post e c u p"
  "upper verb = ''GET'' \<Longrightarrow> http e c verb u p = get e c u p"
  by (simp_all add: post_def get_def http_def upper_def)

lemma renewal_positive_timeout:
  assumes "renewal e c = Inr (tok, t)"
    and "renewal_timeout (server e (sent c @ [renewal_request c])) = Inr delta"
    and "0 < delta"
  shows "clock e (ticks c + 1) < t"
  using assms
  by (auto simp: renewal_def Let_def and_then_Inr add_timedelta_def split: if_splits)

text \<open>
  C7 (as amended). A POST through the client (\<open>post\<close>, or \<open>http\<close> with a verb that
  upper-cases to POST) reads the clock and compares. If \<open>expire \<le> now\<close>, it sends the
  one renewal request first. When the renewal succeeds, the header \<open>X-RequestDigest\<close>
  is set to the new token, \<open>expire\<close> becomes the clock reading after the renewal plus
  the lifetime in the response, and then the POST is sent with the new header; its
  response decides the result. When a step of the renewal fails, the call raises that
  exception, the POST is never sent and \<open>expire\<close> stays. If \<open>now < expire\<close>, the POST is
  the only request sent, with headers and \<open>expire\<close> as they were. A GET sends its one
  request and neither reads the clock nor touches headers or \<open>expire\<close>. The new expiry
  lies after the clock reading of the renewal when the lifetime is positive.
\<close>

theorem post_renewal_timing:
  "(expire c \<le> clock e (ticks c) \<and> renewal e c = Inr (tok, t) \<longrightarrow>
      post e c u d =
        (let H = AList.update ''X-RequestDigest'' tok (headers c);
             rq = \<lparr>meth = POST, target = u, sent_headers = H, content = d\<rparr>;
             r = server e (sent c @ [renewal_request c, rq])
         in (and_then (check_response r) (\<lambda>_. Inr r),
             c\<lparr>ticks := ticks c + 2, sent := sent c @ [renewal_request c, rq],
                headers := H, expire := t\<rparr>)))
   \<and> (expire c \<le> clock e (ticks c) \<and> renewal e c = Inl x \<longrightarrow>
        fst (post e c u d) = Inl x
        \<and> sent (snd (post e c u d)) = sent c @ [renewal_request c]
        \<and> expire (snd (post e c u d)) = expire c)
   \<and> (clock e (ticks c) < expire c \<longrightarrow>
        post e c u d =
          (let rq = \<lparr>meth = POST, target = u, sent_headers = headers c, content = d\<rparr>;
               r = server e (sent c @ [rq])
           in (and_then (check_response r) (\<lambda>_. Inr r),
               c\<lparr>ticks := ticks c + 1, sent := sent c @ [rq]\<rparr>)))
   \<and> get e c u p =
        (let rq = \<lparr>meth = GET, target = u, sent_headers = headers c, content = p\<rparr>;
             r = server e (sent c @ [rq])
         in (and_then (check_response r) (\<lambda>_. Inr r), c\<lparr>sent := sent c @ [rq]\<rparr>))
   \<and> (upper verb = ''POST'' \<longrightarrow> http e c verb u d = post e c u d)
   \<and> (upper verb = ''GET'' \<longrightarrow> http e c verb u p = get e c u p)
   \<and> (renewal e c = Inr (tok, t)
        \<and> renewal_timeout (server e (sent c @ [renewal_request c])) = Inr delta \<and> 0 < delta
        \<longrightarrow> clock e (ticks c + 1) < t)"
  using post_renewed[of c e tok t u d] post_renewal_failed[of c e x u d]
    post_unexpired[of e c u d] get_no_renewal[of e c u p] http_verbs[of verb e c u]
    renewal_positive_timeout[of e c tok t delta]
  unfolding Let_def by blast

text \<open>
  At this input the claim as stated fails: the renewal response gives the token a
  lifetime of 0 seconds, so the new expiry is the clock reading of the renewal itself,
  and the POST is sent although \<open>expire \<le> now\<close> at that reading and at every later one.
\<close>

theorem post_while_expired:
  "sent (snd (post (scripted [] (ok_json (contextinfo_body ''0x1A'' 0)) (\<lambda>k. 5 + int k))
                (new_client ''https://host/_api'' 0) ''https://host/_api/Web/x'' NoPayload))
     = [\<lparr>meth = POST, target = ''https://host/_api/contextinfo'', sent_headers = [],
         content = NoPayload\<rparr>,
        \<lparr>meth = POST, target = ''https://host/_api/Web/x'',
          sent_headers = [(''X-RequestDigest'', JStr ''0x1A'')], content = NoPayload\<rparr>]
   \<and> expire (snd (post (scripted [] (ok_json (contextinfo_body ''0x1A'' 0)) (\<lambda>k. 5 + int k))
                (new_client ''https://host/_api'' 0) ''https://host/_api/Web/x'' NoPayload)) = 6
   \<and> clock (scripted [] (ok_json (contextinfo_body ''0x1A'' 0)) (\<lambda>k. 5 + int k)) 1 = 6
   \<and> ticks (snd (post (scripted [] (ok_json (contextinfo_body ''0x1A'' 0)) (\<lambda>k. 5 + int k))
                (new_client ''https://host/_api'' 0) ''https://host/_api/Web/x'' NoPayload)) = 2
   \<and> clock (scripted [] (ok_json (contextinfo_body ''0x1A'' 0)) (\<lambda>k. 5 + int k)) 2 = 7"
  by (simp add: post_def http_def upper_def digest_def Let_def session_request_eq scripted_def
      ok_json_def contextinfo_body_def new_client_def check_response_def contextinfo_def
      response_json_def add_timedelta_def)

lemma renewal_example:
  "renewal (scripted [] (ok_json (contextinfo_body ''0x1A'' 1800)) (\<lambda>k. 5 + int k))
     (new_client ''https://host/_api'' 0) = Inr (JStr ''0x1A'', 1800000006)"
  "renewal_timeout (server (scripted [] (ok_json (contextinfo_body ''0x1A'' 1800)) (\<lambda>k. 5 + int k))
     (sent (new_client ''https://host/_api'' 0) @ [renewal_request (new_client ''https://host/_api'' 0)]))
     = Inr 1800000000"
  "renewal (scripted [] server_error (\<lambda>k. 5 + int k)) (new_client ''https://host/_api'' 0)
     = Inl TransportError"
  by (simp_all add: renewal_def renewal_token_def renewal_timeout_def renewal_request_def Let_def
      scripted_def ok_json_def server_error_def contextinfo_body_def new_client_def
      check_response_def contextinfo_def response_json_def add_timedelta_def)

theorem post_renewal_timing_witness:
  "expire (new_client ''https://host/_api'' 0)
     \<le> clock (scripted [] (ok_json (contextinfo_body ''0x1A'' 1800)) (\<lambda>k. 5 + int k))
         (ticks (new_client ''https://host/_api'' 0))
   \<and> renewal (scripted [] (ok_json (contextinfo_body ''0x1A'' 1800)) (\<lambda>k. 5 + int k))
        (new_client ''https://host/_api'' 0) = Inr (JStr ''0x1A'', 1800000006)
   \<and> post (scripted [] (ok_json (contextinfo_body ''0x1A'' 1800)) (\<lambda>k. 5 + int k))
        (new_client ''https://host/_api'' 0) ''https://host/_api/Web/x'' NoPayload
      = (Inr (ok_json (contextinfo_body ''0x1A'' 1800)),
         \<lparr>api_url = ''https://host/_api'',
           headers = [(''X-RequestDigest'', JStr ''0x1A'')],
           expire = 1800000006,
           sent = [\<lparr>meth = POST, target = ''https://host/_api/contextinfo'', sent_headers = [],
                    content = NoPayload\<rparr>,
                   \<lparr>meth = POST, target = ''https://host/_api/Web/x'',
                     sent_headers = [(''X-RequestDigest'', JStr ''0x1A'')], content = NoPayload\<rparr>],
           ticks = 2\<rparr>)
   \<and> clock (scripted [] (ok_json (contextinfo_body ''0x1A'' 1800)) (\<lambda>k. 5 + int k))
         (ticks (new_client ''https://host/_api'' 0) + 1) < 1800000006
   \<and> renewal (scripted [] server_error (\<lambda>k. 5 + int k)) (new_client ''https://host/_api'' 0)
        = Inl TransportError
   \<and> fst (post (scripted [] server_error (\<lambda>k. 5 + int k)) (new_client ''https://host/_api'' 0)
            ''https://host/_api/Web/x'' NoPayload) = Inl TransportError
   \<and> sent (snd (post (scripted [] server_error (\<lambda>k. 5 + int k)) (new_client ''https://host/_api'' 0)
            ''https://host/_api/Web/x'' NoPayload))
        = [\<lparr>meth = POST, target = ''https://host/_api/contextinfo'', sent_headers = [],
            content = NoPayload\<rparr>]
   \<and> clock (scripted [] server_error (\<lambda>k. 5 + int k)) (ticks (new_client ''https://host/_api'' 9))
        < expire (new_client ''https://host/_api'' 9)
   \<and> sent (snd (post (scripted [] server_error (\<lambda>k. 5 + int k)) (new_client ''https://host/_api'' 9)
            ''https://host/_api/Web/x'' NoPayload))
        = [\<lparr>meth = POST, target = ''https://host/_api/Web/x'', sent_headers = [],
            content = NoPayload\<rparr>]
   \<and> upper ''post'' = ''POST'' \<and> upper ''Get'' = ''GET''
   \<and> http (scripted [] server_error (\<lambda>k. 5 + int k)) (new_client ''https://host/_api'' 9)
        ''post'' ''https://host/_api/Web/x'' NoPayload
      = post (scripted [] server_error (\<lambda>k. 5 + int k)) (new_client ''https://host/_api'' 9)
        ''https://host/_api/Web/x'' NoPayload
   \<and> http (scripted [] server_error (\<lambda>k. 5 + int k)) (new_client ''https://host/_api'' 9)
        ''Get'' ''https://host/_api/Web/x'' NoPayload
      = get (scripted [] server_error (\<lambda>k. 5 + int k)) (new_client ''https://host/_api'' 9)
        ''https://host/_api/Web/x'' NoPayload"
proof -
  let ?e = "scripted [] (ok_json (contextinfo_body ''0x1A'' 1800)) (\<lambda>k. 5 + int k)"
  let ?f = "scripted [] server_error (\<lambda>k. 5 + int k)"
  let ?c0 = "new_client ''https://host/_api'' 0"
  let ?c9 = "new_client ''https://host/_api'' 9"
  let ?u = "''https://host/_api/Web/x''"
  have h0: "expire ?c0 \<le> clock ?e (ticks ?c0)" "expire ?c0 \<le> clock ?f (ticks ?c0)"
    by (simp_all add: new_client_def scripted_def)
  have h9: "clock ?f (ticks ?c9) < expire ?c9"
    by (simp add: new_client_def scripted_def)
  have hu: "upper ''post'' = ''POST''" "upper ''Get'' = ''GET''"
    by (simp_all add: upper_def)
  note ok = renewal_example(1) and tm = renewal_example(2) and bad = renewal_example(3)
  note t1 = post_renewal_timing[of ?c0 ?e "JStr ''0x1A''" 1800000006 ?u NoPayload _ _ _ 1800000000]
  note t2 = post_renewal_timing[of ?c0 ?f _ _ ?u NoPayload TransportError]
  note t3 = post_renewal_timing[of ?c9 ?f _ _ ?u NoPayload _ NoPayload]
  have a: "post ?e ?c0 ?u NoPayload =
        (let H = AList.update ''X-RequestDigest'' (JStr ''0x1A'') (headers ?c0);
             rq = \<lparr>meth = POST, target = ?u, sent_headers = H, content = NoPayload\<rparr>;
             r = server ?e (sent ?c0 @ [renewal_request ?c0, rq])
         in (and_then (check_response r) (\<lambda>_. Inr r),
             ?c0\<lparr>ticks := ticks ?c0 + 2, sent := sent ?c0 @ [renewal_request ?c0, rq],
                headers := H, expire := 1800000006\<rparr>))"
    using t1 h0(1) ok by blast
  have a': "post ?e ?c0 ?u NoPayload
      = (Inr (ok_json (contextinfo_body ''0x1A'' 1800)),
         \<lparr>api_url = ''https://host/_api'',
           headers = [(''X-RequestDigest'', JStr ''0x1A'')],
           expire = 1800000006,
           sent = [\<lparr>meth = POST, target = ''https://host/_api/contextinfo'', sent_headers = [],
                    content = NoPayload\<rparr>,
                   \<lparr>meth = POST, target = ?u,
                     sent_headers = [(''X-RequestDigest'', JStr ''0x1A'')], content = NoPayload\<rparr>],
           ticks = 2\<rparr>)"
    unfolding a
    by (simp add: Let_def new_client_def renewal_request_def scripted_def ok_json_def
        check_response_def)
  have b: "clock ?e (ticks ?c0 + 1) < 1800000006"
    using t1 ok tm by simp
  have c: "fst (post ?f ?c0 ?u NoPayload) = Inl TransportError"
    "sent (snd (post ?f ?c0 ?u NoPayload)) = sent ?c0 @ [renewal_request ?c0]"
    using t2 h0(2) bad by blast+
  have d: "post ?f ?c9 ?u NoPayload =
          (let rq = \<lparr>meth = POST, target = ?u, sent_headers = headers ?c9, content = NoPayload\<rparr>;
               r = server ?f (sent ?c9 @ [rq])
           in (and_then (check_response r) (\<lambda>_. Inr r),
               ?c9\<lparr>ticks := ticks ?c9 + 1, sent := sent ?c9 @ [rq]\<rparr>))"
    using t3 h9 by blast
  have d': "sent (snd (post ?f ?c9 ?u NoPayload))
        = [\<lparr>meth = POST, target = ?u, sent_headers = [], content = NoPayload\<rparr>]"
    unfolding d by (simp add: Let_def new_client_def)
  have v: "http ?f ?c9 ''post'' ?u NoPayload = post ?f ?c9 ?u NoPayload"
    "http ?f ?c9 ''Get'' ?u NoPayload = get ?f ?c9 ?u NoPayload"
    using post_renewal_timing[of ?c9 ?f _ _ ?u NoPayload _ NoPayload "''post''"]
      post_renewal_timing[of ?c9 ?f _ _ ?u NoPayload _ NoPayload "''Get''"] hu by blast+
  have c': "sent ?c0 @ [renewal_request ?c0]
        = [\<lparr>meth = POST, target = ''https://host/_api/contextinfo'', sent_headers = [],
            content = NoPayload\<rparr>]"
    by (simp add: new_client_def renewal_request_def)
  show ?thesis
    using h0(1) ok a' b bad c h9 d' hu v unfolding c' by simp
qed

section \<open>Properties of nodes and lazy attributes\<close>

lemma delete_no_key: "map_of (AList.delete k d) k = None"
  by (simp add: AList.delete_eq map_of_eq_None_iff image_iff) 

lemma SPObject_init_pops:
  assumes "map_of d ''__metadata'' = Some m"
  shows "SPObject_init k u (Some d)
           = Inr (Node k u (init_attributes (AList.delete ''__metadata'' d) []),
                  Some (AList.delete ''__metadata'' d))"
proof -
  have "d \<noteq> []" using assms by auto
  then show ?thesis using assms by (simp add: SPObject_init_def Let_def)
qed

lemma SPObject_init_again:
  assumes "map_of d ''__metadata'' = None"
  shows "SPObject_init k u (Some d) = (if d = [] then Inr (Node k u [], Some []) else Inl KeyError)"
  using assms by (simp add: SPObject_init_def)

lemma json_to_object_classes:
  "json_to_object (JDict [(''__metadata'', JDict [(''type'', JStr ''SP.Folder''),
                                   (''uri'', JStr ''https://host/_api/Web/f'')]),
           (''Name'', JStr ''f'')])
     = Inr (Node SPFolder (JStr ''https://host/_api/Web/f'') [(''Name'', VJson (JStr ''f''))],
            JDict [(''Name'', JStr ''f'')])"
  "json_to_object (JDict [(''__metadata'', JDict [(''type'', JStr ''Lazy.Post''),
                                   (''uri'', JStr ''https://host/_api/Web/f'')])])
     = Inr (Node (LazyPost (JDict [(''__metadata'', JDict [(''type'', JStr ''Lazy.Post''),
                                   (''uri'', JStr ''https://host/_api/Web/f'')])]))
              (JStr ''https://host/_api/Web/f'') [],
            JDict [(''__metadata'', JDict [(''type'', JStr ''Lazy.Post''),
                                   (''uri'', JStr ''https://host/_api/Web/f'')])])"
  "json_to_object (JDict [(''__metadata'', JDict [(''type'', JStr ''SP.List''),
                                   (''uri'', JStr ''https://host/_api/Web/l'')])])
     = Inr (Node SPObject (JStr ''https://host/_api/Web/l'') [], JDict [])"
  "json_to_object (JDict [(''__metadata'', JDict [(''type'', JStr ''os''),
                                   (''uri'', JStr ''https://host/_api/Web/l'')])])
     = Inl TypeError"
  "json_to_object (JDict [(''Name'', JStr ''f'')]) = Inl KeyError"
  by (simp_all add: json_to_object_def lookup_global_def not_callable_globals_def
        other_functions_def SPObject_init_def AList.delete_eq)

lemma parse_json_None: "parse_json name has_client JNull = Inr (VJson JNull)"
  by (simp add: parse_json_def)

lemma LazyAttribute_init_None:
  "LazyAttribute_init u name JNull = Inr \<lparr>attr_url = u, attr_name = name, attr_value = VJson JNull\<rparr>"
  by (simp add: LazyAttribute_init_def parse_json_None)

lemma get_result:
  "get e c u p = (r, c1) \<Longrightarrow>
     c1 = c\<lparr>sent := sent c @ [\<lparr>meth = GET, target = u, sent_headers = headers c, content = p\<rparr>]\<rparr>"
  by (auto simp: get_def http_def upper_def session_request_def Let_def)

lemma value_cached:
  "truthy_val (attr_value la) \<Longrightarrow> LazyAttribute_value e c la q = (Inr (attr_value la), c, la)"
  by (simp add: LazyAttribute_value_def)

lemma value_fetches:
  assumes "\<not> truthy_val (attr_value la)" and "LazyAttribute_value e c la q = (r, c1, la1)"
  shows "c1 = c\<lparr>sent := sent c @ [\<lparr>meth = GET, target = attr_url la, sent_headers = headers c, content = q\<rparr>]\<rparr>"
    and "case r of Inl x \<Rightarrow> la1 = la | Inr v \<Rightarrow> la1 = la\<lparr>attr_value := v\<rparr>"
proof -
  obtain g c' where g: "get e c (attr_url la) q = (g, c')" by (cases "get e c (attr_url la) q")
  have c': "c' = c\<lparr>sent := sent c @ [\<lparr>meth = GET, target = attr_url la, sent_headers = headers c, content = q\<rparr>]\<rparr>"
    using get_result[OF g] .
  show "c1 = c\<lparr>sent := sent c @ [\<lparr>meth = GET, target = attr_url la, sent_headers = headers c, content = q\<rparr>]\<rparr>"
    using assms g c' by (auto simp: LazyAttribute_value_def split: sum.splits)
  show "case r of Inl x \<Rightarrow> la1 = la | Inr v \<Rightarrow> la1 = la\<lparr>attr_value := v\<rparr>"
    using assms g by (auto simp: LazyAttribute_value_def split: sum.splits)
qed

lemma value_sent_length:
  "length (sent (fst (snd (LazyAttribute_value e c la q)))) \<le> Suc (length (sent c))"
proof (cases "truthy_val (attr_value la)")
  case True
  then show ?thesis by (simp add: value_cached)
next
  case False
  obtain r c1 la1 where v: "LazyAttribute_value e c la q = (r, c1, la1)"
    by (cases "LazyAttribute_value e c la q") auto
  show ?thesis using value_fetches(1)[OF False v] v by simp
qed

lemma attribute_cached:
  "map_of (attributes self) name = Some v \<Longrightarrow> attribute e c self name = (Inr v, c, self)"
  by (simp add: attribute_def)

lemma attribute_stores:
  assumes "attribute e c self name = (Inr v, c1, self1)"
  shows "map_of (attributes self1) name = Some v"
proof (cases "map_of (attributes self) name")
  case (Some w)
  then show ?thesis using assms by (simp add: attribute_def)
next
  case None
  then show ?thesis using assms
    by (auto simp: attribute_def LazyAttribute_init_None update_Some_unfold
        split: json.splits sum.splits prod.splits)
qed

lemma attribute_sent_length:
  "length (sent (fst (snd (attribute e c self name)))) \<le> Suc (length (sent c))"
proof (cases "map_of (attributes self) name")
  case (Some w)
  then show ?thesis by (simp add: attribute_def)
next
  case None
  show ?thesis
  proof (cases "endpoint_url self")
    case (JStr u)
    let ?la = "\<lparr>attr_url = u @ ''/'' @ name, attr_name = name, attr_value = VJson JNull\<rparr>"
    obtain r c1 la1 where v: "LazyAttribute_value e c ?la NoPayload = (r, c1, la1)"
      by (cases "LazyAttribute_value e c ?la NoPayload") auto
    have "length (sent c1) \<le> Suc (length (sent c))"
      using value_sent_length[of e c ?la NoPayload] v by simp
    then show ?thesis
      using None JStr v by (cases r) (simp_all add: attribute_def LazyAttribute_init_None)
  qed (use None in \<open>simp_all add: attribute_def\<close>)
qed

lemma attribute_twice_sent_length:
  "length (sent (fst (snd (attribute_twice e c self name)))) \<le> Suc (length (sent c))"
proof -
  obtain r c1 self1 where a: "attribute e c self name = (r, c1, self1)"
    by (cases "attribute e c self name") auto
  have len: "length (sent c1) \<le> Suc (length (sent c))"
    using attribute_sent_length[of e c self name] a by simp
  show ?thesis
  proof (cases r)
    case (Inl x)
    then show ?thesis using a len by (simp add: attribute_twice_def)
  next
    case (Inr v)
    then have "attribute e c1 self1 name = (Inr v, c1, self1)"
      using a attribute_stores attribute_cached by blast
    then show ?thesis using a Inr len by (simp add: attribute_twice_def)
  qed
qed

text \<open>
  C1. When \<open>name\<close> is a key of the node's attribute dict, \<open>attribute(name)\<close> returns
  the stored value, whatever it is, and leaves the client (so the requests sent) and
  the node as they were. A call that returns has stored its result under \<open>name\<close>, so
  that the next call returns the same value without a request. Two calls in a row
  therefore send at most one request.
\<close>

theorem attribute_single_resolution:
  "(map_of (attributes self) name = Some v \<longrightarrow> attribute e c self name = (Inr v, c, self))
   \<and> (attribute e c self name = (Inr v, c1, self1) \<longrightarrow>
        map_of (attributes self1) name = Some v
        \<and> attribute e' c1 self1 name = (Inr v, c1, self1)
        \<and> attribute_twice e c self name = (Inr v, c1, self1))
   \<and> length (sent (fst (snd (attribute e c self name)))) \<le> Suc (length (sent c))
   \<and> length (sent (fst (snd (attribute_twice e c self name)))) \<le> Suc (length (sent c))"
proof -
  have "attribute_twice e c self name = (Inr v, c1, self1)"
    if "attribute e c self name = (Inr v, c1, self1)"
    using that attribute_cached[OF attribute_stores[OF that], of e c1]
    by (simp add: attribute_twice_def)
  then show ?thesis
    using attribute_cached attribute_stores attribute_sent_length attribute_twice_sent_length
    by blast
qed

theorem attribute_single_resolution_witness:
  "map_of (attributes (Node SPFolder (JStr ''https://host/_api/Web/f'') [(''ItemCount'', VJson JNull)]))
      ''ItemCount'' = Some (VJson JNull)
   \<and> attribute (scripted [] server_error (\<lambda>k. 0)) (new_client ''https://host/_api'' 0)
        (Node SPFolder (JStr ''https://host/_api/Web/f'') [(''ItemCount'', VJson JNull)]) ''ItemCount''
      = (Inr (VJson JNull), new_client ''https://host/_api'' 0,
         Node SPFolder (JStr ''https://host/_api/Web/f'') [(''ItemCount'', VJson JNull)])
   \<and> attribute (scripted [] (ok_json (JDict [(''d'', JDict [(''Name'', JNull)])])) (\<lambda>k. 0))
        (new_client ''https://host/_api'' 0) (Node SPFolder (JStr ''https://host/_api/Web/f'') []) ''Name''
      = (Inr (VJson JNull),
         (new_client ''https://host/_api'' 0)
           \<lparr>sent := [\<lparr>meth = GET, target = ''https://host/_api/Web/f/Name'', sent_headers = [],
                       content = NoPayload\<rparr>]\<rparr>,
         Node SPFolder (JStr ''https://host/_api/Web/f'') [(''Name'', VJson JNull)])
   \<and> attribute_twice (scripted [] (ok_json (JDict [(''d'', JDict [(''Name'', JNull)])])) (\<lambda>k. 0))
        (new_client ''https://host/_api'' 0) (Node SPFolder (JStr ''https://host/_api/Web/f'') []) ''Name''
      = (Inr (VJson JNull),
         (new_client ''https://host/_api'' 0)
           \<lparr>sent := [\<lparr>meth = GET, target = ''https://host/_api/Web/f/Name'', sent_headers = [],
                       content = NoPayload\<rparr>]\<rparr>,
         Node SPFolder (JStr ''https://host/_api/Web/f'') [(''Name'', VJson JNull)])"
proof -
  let ?n = "Node SPFolder (JStr ''https://host/_api/Web/f'') [(''ItemCount'', VJson JNull)]"
  let ?e = "scripted [] (ok_json (JDict [(''d'', JDict [(''Name'', JNull)])])) (\<lambda>k. 0)"
  let ?c = "new_client ''https://host/_api'' 0"
  let ?m = "Node SPFolder (JStr ''https://host/_api/Web/f'') []"
  let ?c1 = "?c\<lparr>sent := [\<lparr>meth = GET, target = ''https://host/_api/Web/f/Name'', sent_headers = [],
                       content = NoPayload\<rparr>]\<rparr>"
  let ?m1 = "Node SPFolder (JStr ''https://host/_api/Web/f'') [(''Name'', VJson JNull)]"
  have h: "map_of (attributes ?n) ''ItemCount'' = Some (VJson JNull)"
    by simp
  have a: "attribute (scripted [] server_error (\<lambda>k. 0)) ?c ?n ''ItemCount'' = (Inr (VJson JNull), ?c, ?n)"
    using attribute_single_resolution[of ?n "''ItemCount''" "VJson JNull"] h by blast
  have f: "attribute ?e ?c ?m ''Name'' = (Inr (VJson JNull), ?c1, ?m1)"
    by (simp add: attribute_def LazyAttribute_init_None LazyAttribute_value_def get_def http_def
        upper_def session_request_eq scripted_def ok_json_def new_client_def check_response_def
        response_json_def parse_json_def)
  have t: "attribute_twice ?e ?c ?m ''Name'' = (Inr (VJson JNull), ?c1, ?m1)"
    using attribute_single_resolution[of ?m "''Name''" "VJson JNull" ?e ?c ?c1 ?m1] f by blast
  show ?thesis
    using h a f t by blast
qed





text \<open>
  C10 (as amended). Constructing a node from a dict that has the key \<open>'__metadata'\<close>
  succeeds and removes that key from the caller's dict, which keeps its other entries.
  Passing the same dict to the constructor again raises \<open>KeyError\<close> when the dict
  still holds another key; when \<open>'__metadata'\<close> was its only key, the dict is empty
  now, the constructor's test \<open>if json:\<close> skips it, and the second node is built
  without an exception.
\<close>

theorem init_pops_metadata:
  "map_of d ''__metadata'' = Some m \<longrightarrow>
      SPObject_init k u (Some d)
        = Inr (Node k u (init_attributes (AList.delete ''__metadata'' d) []),
               Some (AList.delete ''__metadata'' d))
      \<and> map_of (AList.delete ''__metadata'' d) ''__metadata'' = None
      \<and> ''__metadata'' \<notin> fst ` set (AList.delete ''__metadata'' d)
      \<and> AList.delete ''__metadata'' d = filter (\<lambda>(key, val). key \<noteq> ''__metadata'') d
      \<and> (AList.delete ''__metadata'' d \<noteq> [] \<longrightarrow>
           SPObject_init k2 u2 (Some (AList.delete ''__metadata'' d)) = Inl KeyError)
      \<and> (AList.delete ''__metadata'' d = [] \<longrightarrow>
           SPObject_init k2 u2 (Some (AList.delete ''__metadata'' d)) = Inr (Node k2 u2 [], Some []))"
proof -
  have a: "map_of (AList.delete ''__metadata'' d) ''__metadata'' = None"
    by (rule delete_no_key)
  then have b: "''__metadata'' \<notin> fst ` set (AList.delete ''__metadata'' d)"
    by (simp add: map_of_eq_None_iff)
  have c: "AList.delete ''__metadata'' d = filter (\<lambda>(key, val). key \<noteq> ''__metadata'') d"
    by (induction d) (auto simp: AList.delete_eq)
  show ?thesis
    using SPObject_init_pops[of d m k u] SPObject_init_again[OF a, of k2 u2] a b c
    by auto
qed

text \<open>
  At this input the claim as stated fails: the envelope holds \<open>'__metadata'\<close> only,
  the first construction empties it, and the second construction succeeds.
\<close>

theorem init_twice_single_key:
  "SPObject_init SPFolder (JStr ''https://host/_api/Web/f'')
      (Some [(''__metadata'', JDict [(''type'', JStr ''SP.Folder''),
                                     (''uri'', JStr ''https://host/_api/Web/f'')])])
     = Inr (Node SPFolder (JStr ''https://host/_api/Web/f'') [], Some [])
   \<and> SPObject_init SPFolder (JStr ''https://host/_api/Web/f'') (Some [])
     = Inr (Node SPFolder (JStr ''https://host/_api/Web/f'') [], Some [])
   \<and> SPObject_init SPFolder (JStr ''https://host/_api/Web/f'') (Some []) \<noteq> Inl KeyError"
  by (simp add: SPObject_init_def AList.delete_eq)

theorem init_pops_metadata_witness:
  "map_of [(''__metadata'', JDict [(''type'', JStr ''SP.Folder''),
                                   (''uri'', JStr ''https://host/_api/Web/f'')]),
           (''Name'', JStr ''f''), (''Files'', JDict [(''__deferred'', JNull)])] ''__metadata''
     = Some (JDict [(''type'', JStr ''SP.Folder''), (''uri'', JStr ''https://host/_api/Web/f'')])
   \<and> SPObject_init SPFolder (JStr ''https://host/_api/Web/f'')
        (Some [(''__metadata'', JDict [(''type'', JStr ''SP.Folder''),
                                       (''uri'', JStr ''https://host/_api/Web/f'')]),
               (''Name'', JStr ''f''), (''Files'', JDict [(''__deferred'', JNull)])])
     = Inr (Node SPFolder (JStr ''https://host/_api/Web/f'') [(''Name'', VJson (JStr ''f''))],
            Some [(''Name'', JStr ''f''), (''Files'', JDict [(''__deferred'', JNull)])])
   \<and> [(''Name'', JStr ''f''), (''Files'', JDict [(''__deferred'', JNull)])] \<noteq> []
   \<and> SPObject_init SPFile (JStr ''https://host/_api/Web/g'')
        (Some [(''Name'', JStr ''f''), (''Files'', JDict [(''__deferred'', JNull)])]) = Inl KeyError
   \<and> map_of [(''__metadata'', JNull)] ''__metadata'' = Some JNull
   \<and> AList.delete ''__metadata'' [(''__metadata'', JNull)] = []
   \<and> SPObject_init SPFile (JStr ''https://host/_api/Web/g'') (Some [])
     = Inr (Node SPFile (JStr ''https://host/_api/Web/g'') [], Some [])"
proof -
  let ?m = "JDict [(''type'', JStr ''SP.Folder''), (''uri'', JStr ''https://host/_api/Web/f'')]"
  let ?d = "[(''__metadata'', ?m), (''Name'', JStr ''f''), (''Files'', JDict [(''__deferred'', JNull)])]"
  let ?d' = "[(''Name'', JStr ''f''), (''Files'', JDict [(''__deferred'', JNull)])]"
  have h: "map_of ?d ''__metadata'' = Some ?m" by simp
  have del: "AList.delete ''__metadata'' ?d = ?d'" by (simp add: AList.delete_eq)
  have ne: "?d' \<noteq> []" by simp
  have att: "init_attributes ?d' [] = [(''Name'', VJson (JStr ''f''))]" by simp
  have h1: "map_of [(''__metadata'', JNull)] ''__metadata'' = Some JNull" by simp
  have del1: "AList.delete ''__metadata'' [(''__metadata'', JNull)] = []"
    by (simp add: AList.delete_eq)
  note t = init_pops_metadata[of ?d ?m SPFolder "JStr ''https://host/_api/Web/f''" SPFile
      "JStr ''https://host/_api/Web/g''"]
  note t1 = init_pops_metadata[of "[(''__metadata'', JNull)]" JNull SPFolder
      "JStr ''https://host/_api/Web/f''" SPFile "JStr ''https://host/_api/Web/g''"]
  have a: "SPObject_init SPFolder (JStr ''https://host/_api/Web/f'') (Some ?d)
        = Inr (Node SPFolder (JStr ''https://host/_api/Web/f'')
                 (init_attributes (AList.delete ''__metadata'' ?d) []),
               Some (AList.delete ''__metadata'' ?d))"
    using t h by blast
  have b: "SPObject_init SPFile (JStr ''https://host/_api/Web/g'')
             (Some (AList.delete ''__metadata'' ?d)) = Inl KeyError"
    using t h ne unfolding del by blast
  have c: "SPObject_init SPFile (JStr ''https://host/_api/Web/g'')
             (Some (AList.delete ''__metadata'' [(''__metadata'', JNull)]))
           = Inr (Node SPFile (JStr ''https://host/_api/Web/g'') [], Some [])"
    using t1 h1 del1 by blast
  show ?thesis
    using h a b c h1 del1 ne unfolding del att del1 by blast
qed

section \<open>Properties of the chunked upload\<close>

lemma dropWhile_keep: "xs \<noteq> [] \<Longrightarrow> \<not> P (hd xs) \<Longrightarrow> dropWhile P xs = xs"
  by (cases xs) auto

lemma strip_keep:
  "s \<noteq> [] \<Longrightarrow> hd s \<notin> cs \<Longrightarrow> last s \<notin> cs \<Longrightarrow> strip cs s = s"
  by (simp add: strip_def dropWhile_keep hd_rev)

lemma strip_lead: "a \<in> cs \<Longrightarrow> strip cs (a # s) = strip cs s"
  by (simp add: strip_def)

lemma strip_trail: "a \<in> cs \<Longrightarrow> hd s \<notin> cs \<Longrightarrow> s \<noteq> [] \<Longrightarrow> strip cs (s @ [a]) = strip cs s"
  by (cases s) (auto simp: strip_def)

lemma digit_not_separator: "k < 10 \<Longrightarrow> ''0123456789'' ! k \<notin> {CHR '','', CHR '' ''}"
proof -
  assume "k < 10"
  then have "''0123456789'' ! k \<in> set ''0123456789''" by (intro nth_mem) simp
  then show ?thesis by auto
qed

lemma str_nat_last: "str_nat n \<noteq> [] \<and> last (str_nat n) \<notin> {CHR '','', CHR '' ''}"
proof -
  have "str_nat n \<noteq> [] \<and> last (str_nat n) = ''0123456789'' ! (n mod 10)"
    by (subst (1 2) str_nat.simps) simp
  then show ?thesis using digit_not_separator[of "n mod 10"] by simp
qed

lemma upload_call_strings:
  "call_string guid (StartUpload chunk)
     = Inr (''/startupload(uploadId=guid'' @ [CHR 0x27] @ str_uuid guid @ [CHR 0x27] @ '')'')"
  "call_string guid (ContinueUpload offset chunk)
     = Inr (''/continueupload(uploadId=guid'' @ [CHR 0x27] @ str_uuid guid @ [CHR 0x27]
              @ '', fileOffset='' @ str_int (int offset) @ '')'')"
  "call_string guid (FinishUpload offset chunk)
     = Inr (''/finishupload(uploadId=guid'' @ [CHR 0x27] @ str_uuid guid @ [CHR 0x27]
              @ '', fileOffset='' @ str_int (int offset) @ '')'')"
  "call_string guid CancelUpload
     = Inr (''/cancelupload(guid'' @ [CHR 0x27] @ str_uuid guid @ [CHR 0x27] @ '')'')"
proof -
  let ?cs = "{CHR '','', CHR '' ''}"
  let ?id = "''uploadId=guid'' @ [CHR 0x27] @ str_uuid guid @ [CHR 0x27]"
  let ?off = "?id @ '', fileOffset='' @ str_nat offset"
  let ?g = "''guid'' @ [CHR 0x27] @ str_uuid guid @ [CHR 0x27]"
  have i: "str_int (int offset) = str_nat offset" by (simp add: str_int_def)
  have a: "strip ?cs ('', '' @ ?id) = ?id"
    by (simp add: strip_lead) (rule strip_keep, simp_all)
  have b: "strip ?cs ('', '' @ ?off) = ?off"
    using str_nat_last[of offset]
    by (simp add: strip_lead) (rule strip_keep, simp_all)
  have "strip ?cs (?g @ '', '') = strip ?cs (?g @ '','')"
    using strip_trail[of "CHR '' ''" ?cs "?g @ '',''"] by simp
  also have "\<dots> = strip ?cs ?g"
    using strip_trail[of "CHR '',''" ?cs ?g] by simp
  also have "\<dots> = ?g" by (rule strip_keep) simp_all
  finally have c: "strip ?cs (?g @ '', '') = ?g" .
  show "call_string guid (StartUpload chunk)
     = Inr (''/startupload(uploadId=guid'' @ [CHR 0x27] @ str_uuid guid @ [CHR 0x27] @ '')'')"
    using a by (simp add: make_call_string_def)
  show "call_string guid (ContinueUpload offset chunk)
     = Inr (''/continueupload(uploadId=guid'' @ [CHR 0x27] @ str_uuid guid @ [CHR 0x27]
              @ '', fileOffset='' @ str_int (int offset) @ '')'')"
    using b by (simp add: make_call_string_def i)
  show "call_string guid (FinishUpload offset chunk)
     = Inr (''/finishupload(uploadId=guid'' @ [CHR 0x27] @ str_uuid guid @ [CHR 0x27]
              @ '', fileOffset='' @ str_int (int offset) @ '')'')"
    using b by (simp add: make_call_string_def i)
  show "call_string guid CancelUpload
     = Inr (''/cancelupload(guid'' @ [CHR 0x27] @ str_uuid guid @ [CHR 0x27] @ '')'')"
    using c by (simp add: make_call_string_def)
qed

lemma send_call_post:
  "send_call e c file_url guid call
     = post e c (fst (snd (upload_request file_url guid call))) (snd (snd (upload_request file_url guid call)))"
  by (cases call) (simp_all add: send_call_def upload_call_strings del: call_string.simps)

lemma post_wire:
  assumes "post e c u p = (Inr r, c')"
  shows "\<exists>pre H. sent c' = sent c @ pre @ [\<lparr>meth = POST, target = u, sent_headers = H, content = p\<rparr>]
           \<and> (pre = [] \<or> pre = [renewal_request c]) \<and> api_url c' = api_url c"
proof (cases "expire c \<le> clock e (ticks c)")
  case False
  then show ?thesis using assms post_unexpired[of e c u p] by auto
next
  case True
  show ?thesis
  proof (cases "renewal e c")
    case (Inl x)
    then show ?thesis using post_renewal_failed(1)[OF True Inl, of u p] assms by simp
  next
    case (Inr a)
    obtain tok t where "a = (tok, t)" by (cases a)
    then show ?thesis using post_renewed[OF True, of tok t u p] Inr assms
      by (auto simp: Let_def)
  qed
qed


lemma with_body_append: "with_body (xs @ ys) = with_body xs @ with_body ys"
  by (simp add: with_body_def)

lemma without_body_append: "without_body (xs @ ys) = without_body xs @ without_body ys"
  by (simp add: without_body_def)

lemma send_call_wire:
  assumes "send_call e c file_url guid call = (Inr r, c')" and "call \<noteq> CancelUpload"
  shows "\<exists>new. sent c' = sent c @ new
           \<and> with_body new = [upload_request file_url guid call]
           \<and> (\<forall>rq\<in>set (without_body new). meth rq = POST \<and> target rq = api_url c @ ''/contextinfo'')"
    and "api_url c' = api_url c"
proof -
  let ?u = "fst (snd (upload_request file_url guid call))"
  let ?p = "snd (snd (upload_request file_url guid call))"
  have p: "post e c ?u ?p = (Inr r, c')"
    using assms(1) by (simp add: send_call_post)
  have nb: "?p \<noteq> NoPayload" and rq: "upload_request file_url guid call = (POST, ?u, ?p)"
    using assms(2) by (cases call; simp)+
  from post_wire[OF p] obtain pre H where w:
    "sent c' = sent c @ pre @ [\<lparr>meth = POST, target = ?u, sent_headers = H, content = ?p\<rparr>]"
    "pre = [] \<or> pre = [renewal_request c]" "api_url c' = api_url c"
    by blast
  show "api_url c' = api_url c" by (rule w(3))
  let ?new = "pre @ [\<lparr>meth = POST, target = ?u, sent_headers = H, content = ?p\<rparr>]"
  have "with_body ?new = [upload_request file_url guid call]"
    using w(2) nb rq by (auto simp: with_body_def renewal_request_def)
  moreover have "\<forall>rq\<in>set (without_body ?new). meth rq = POST \<and> target rq = api_url c @ ''/contextinfo''"
    using w(2) nb by (auto simp: without_body_def renewal_request_def)
  ultimately show "\<exists>new. sent c' = sent c @ new
           \<and> with_body new = [upload_request file_url guid call]
           \<and> (\<forall>rq\<in>set (without_body new). meth rq = POST \<and> target rq = api_url c @ ''/contextinfo'')"
    using w(1) by blast
qed

lemma f_read_ok:
  "\<not> read_error e (file_pos f) \<Longrightarrow>
     f_read e f n = (Inr (take n (drop (file_pos f) (file_bytes f))),
                     f\<lparr>file_pos := file_pos f + length (take n (drop (file_pos f) (file_bytes f)))\<rparr>)"
  by (simp add: f_read_def Let_def)

lemma f_read_error:
  "read_error e (file_pos f) \<Longrightarrow> f_read e f n = (Inl IOError, f)"
  by (simp add: f_read_def)

lemma upload_loop_later:
  assumes ch: "0 < chunk_size"
  shows "length (file_bytes (up_file st)) = file_size \<Longrightarrow> file_pos (up_file st) = up_offset st \<Longrightarrow>
         \<not> up_first_chunk st \<Longrightarrow>
         \<exists>r st'. upload_loop e file_url guid file_size chunk_size st = Some (r, st')
           \<and> (\<exists>k. up_calls st' = up_calls st
                @ take k (later_calls file_size chunk_size (file_bytes (up_file st)) (up_offset st)))
           \<and> (r = None \<longrightarrow>
                up_calls st' = up_calls st
                  @ later_calls file_size chunk_size (file_bytes (up_file st)) (up_offset st)
                \<and> file_closed (up_file st') = file_closed (up_file st)
                \<and> api_url (up_client st') = api_url (up_client st)
                \<and> (\<exists>new. sent (up_client st') = sent (up_client st) @ new
                      \<and> with_body new = map (upload_request file_url guid)
                          (later_calls file_size chunk_size (file_bytes (up_file st)) (up_offset st))
                      \<and> (\<forall>rq\<in>set (without_body new).
                            meth rq = POST \<and> target rq = api_url (up_client st) @ ''/contextinfo'')))"
proof (induction "file_size - up_offset st" arbitrary: st rule: less_induct)
  case less
  let ?bs = "file_bytes (up_file st)"
  let ?ofs = "up_offset st"
  let ?chunk = "take chunk_size (drop ?ofs ?bs)"
  let ?f1 = "(up_file st)\<lparr>file_pos := ?ofs + length ?chunk\<rparr>"
  let ?c = "up_client st"
  show ?case
  proof (cases "read_error e (file_pos (up_file st))")
    case True
    have "upload_loop e file_url guid file_size chunk_size st
            = Some (Some IOError, st\<lparr>up_file := up_file st\<rparr>)"
      by (subst upload_loop.simps) (simp add: f_read_error[OF True])
    moreover have "up_calls st = up_calls st @ take 0 (later_calls file_size chunk_size ?bs ?ofs)"
      by simp
    ultimately show ?thesis by fastforce
  next
    case rd: False
    have rdk: "f_read e (up_file st) chunk_size = (Inr ?chunk, ?f1)"
      using f_read_ok[OF rd, of chunk_size] less.prems(2) by simp
    show ?thesis
    proof (cases "file_size \<le> ?ofs + chunk_size")
      case True
      let ?call = "FinishUpload ?ofs ?chunk"
      have cond: "int file_size - int chunk_size \<le> int ?ofs" using True by simp
      have lc: "later_calls file_size chunk_size ?bs ?ofs = [?call]"
        using True by (simp add: later_calls.simps)
      obtain r c1 where s: "send_call e ?c file_url guid ?call = (r, c1)"
        by (cases "send_call e ?c file_url guid ?call")
      show ?thesis
      proof (cases r)
        case (Inl x)
        have "upload_loop e file_url guid file_size chunk_size st
            = Some (Some x, st\<lparr>up_client := c1, up_file := ?f1,
                              up_calls := up_calls st @ [?call]\<rparr>)"
          by (subst upload_loop.simps) (simp add: rdk less.prems(3) cond s Inl)
        moreover have "up_calls st @ [?call]
            = up_calls st @ take 1 (later_calls file_size chunk_size ?bs ?ofs)"
          by (simp add: lc)
        ultimately show ?thesis by fastforce
      next
        case (Inr y)
        let ?st' = "st\<lparr>up_client := c1, up_file := ?f1, up_calls := up_calls st @ [?call]\<rparr>"
        have l: "upload_loop e file_url guid file_size chunk_size st = Some (None, ?st')"
          by (subst upload_loop.simps) (simp add: rdk less.prems(3) cond s Inr)
        have k: "up_calls ?st' = up_calls st @ take 1 (later_calls file_size chunk_size ?bs ?ofs)"
          by (simp add: lc)
        have w: "\<exists>new. sent c1 = sent ?c @ new
             \<and> with_body new = [upload_request file_url guid ?call]
             \<and> (\<forall>rq\<in>set (without_body new). meth rq = POST \<and> target rq = api_url ?c @ ''/contextinfo'')"
          and a: "api_url c1 = api_url ?c"
          using send_call_wire[of e ?c file_url guid ?call y c1] s Inr by simp_all
        have "up_calls ?st' = up_calls st @ later_calls file_size chunk_size ?bs ?ofs
                \<and> file_closed (up_file ?st') = file_closed (up_file st)
                \<and> api_url (up_client ?st') = api_url ?c
                \<and> (\<exists>new. sent (up_client ?st') = sent ?c @ new
                      \<and> with_body new = map (upload_request file_url guid)
                          (later_calls file_size chunk_size ?bs ?ofs)
                      \<and> (\<forall>rq\<in>set (without_body new).
                            meth rq = POST \<and> target rq = api_url ?c @ ''/contextinfo''))"
          using w a by (simp add: lc)
        with l k show ?thesis by blast
      qed
    next
      case False
      let ?call = "ContinueUpload ?ofs ?chunk"
      have cond: "\<not> int file_size - int chunk_size \<le> int ?ofs" using False by simp
      have len: "length ?chunk = chunk_size"
        using False less.prems(1) by simp
      have lc: "later_calls file_size chunk_size ?bs ?ofs
            = ?call # later_calls file_size chunk_size ?bs (?ofs + chunk_size)"
        using False ch by (subst later_calls.simps) simp
      obtain r c1 where s: "send_call e ?c file_url guid ?call = (r, c1)"
        by (cases "send_call e ?c file_url guid ?call")
      show ?thesis
      proof (cases r)
        case (Inl x)
        have "upload_loop e file_url guid file_size chunk_size st
            = Some (Some x, st\<lparr>up_client := c1, up_file := ?f1,
                              up_calls := up_calls st @ [?call]\<rparr>)"
          by (subst upload_loop.simps) (simp add: rdk less.prems(3) cond s Inl)
        moreover have "up_calls st @ [?call]
            = up_calls st @ take 1 (later_calls file_size chunk_size ?bs ?ofs)"
          by (simp add: lc)
        ultimately show ?thesis by fastforce
      next
        case (Inr y)
        let ?st2 = "st\<lparr>up_client := c1, up_file := ?f1, up_offset := ?ofs + length ?chunk,
                   up_calls := up_calls st @ [?call]\<rparr>"
        let ?rest = "later_calls file_size chunk_size ?bs (?ofs + chunk_size)"
        have step: "upload_loop e file_url guid file_size chunk_size st
            = upload_loop e file_url guid file_size chunk_size ?st2"
          by (subst upload_loop.simps) (simp add: rdk less.prems(3) cond s Inr)
        have w: "\<exists>new. sent c1 = sent ?c @ new
             \<and> with_body new = [upload_request file_url guid ?call]
             \<and> (\<forall>rq\<in>set (without_body new). meth rq = POST \<and> target rq = api_url ?c @ ''/contextinfo'')"
          and a: "api_url c1 = api_url ?c"
          using send_call_wire[of e ?c file_url guid ?call y c1] s Inr by simp_all
        have "file_size - up_offset ?st2 < file_size - ?ofs"
          using False ch len by simp
        moreover have "length (file_bytes (up_file ?st2)) = file_size"
          "file_pos (up_file ?st2) = up_offset ?st2" "\<not> up_first_chunk ?st2"
          using less.prems by simp_all
        ultimately obtain r' st' where st':
          "upload_loop e file_url guid file_size chunk_size ?st2 = Some (r', st')"
          "\<exists>k. up_calls st' = up_calls ?st2 @ take k ?rest"
          "r' = None \<longrightarrow>
                up_calls st' = up_calls ?st2 @ ?rest
                \<and> file_closed (up_file st') = file_closed (up_file ?st2)
                \<and> api_url (up_client st') = api_url c1
                \<and> (\<exists>new. sent (up_client st') = sent c1 @ new
                      \<and> with_body new = map (upload_request file_url guid) ?rest
                      \<and> (\<forall>rq\<in>set (without_body new).
                            meth rq = POST \<and> target rq = api_url c1 @ ''/contextinfo''))"
          using less.hyps[of ?st2] len by auto
        from st'(2) obtain k where "up_calls st' = up_calls ?st2 @ take k ?rest" by blast
        then have "up_calls st' = up_calls st
             @ take (Suc k) (later_calls file_size chunk_size ?bs ?ofs)"
          by (simp add: lc)
        then have pre: "\<exists>k. up_calls st' = up_calls st
             @ take k (later_calls file_size chunk_size ?bs ?ofs)"
          by blast
        have fin: "up_calls st' = up_calls st @ later_calls file_size chunk_size ?bs ?ofs
                \<and> file_closed (up_file st') = file_closed (up_file st)
                \<and> api_url (up_client st') = api_url ?c
                \<and> (\<exists>new. sent (up_client st') = sent ?c @ new
                      \<and> with_body new = map (upload_request file_url guid)
                          (later_calls file_size chunk_size ?bs ?ofs)
                      \<and> (\<forall>rq\<in>set (without_body new).
                            meth rq = POST \<and> target rq = api_url ?c @ ''/contextinfo''))"
          if n: "r' = None"
        proof -
          from w obtain n1 where n1: "sent c1 = sent ?c @ n1"
            "with_body n1 = [upload_request file_url guid ?call]"
            "\<forall>rq\<in>set (without_body n1). meth rq = POST \<and> target rq = api_url ?c @ ''/contextinfo''"
            by blast
          from st'(3) n obtain n2 where n2: "sent (up_client st') = sent c1 @ n2"
            "with_body n2 = map (upload_request file_url guid) ?rest"
            "\<forall>rq\<in>set (without_body n2). meth rq = POST \<and> target rq = api_url c1 @ ''/contextinfo''"
            by blast
          have "sent (up_client st') = sent ?c @ (n1 @ n2)"
            using n1(1) n2(1) by simp
          moreover have "with_body (n1 @ n2) = map (upload_request file_url guid)
                          (later_calls file_size chunk_size ?bs ?ofs)"
            using n1(2) n2(2) by (simp add: with_body_append lc)
          moreover have "\<forall>rq\<in>set (without_body (n1 @ n2)).
                            meth rq = POST \<and> target rq = api_url ?c @ ''/contextinfo''"
            using n1(3) n2(3) a by (auto simp: without_body_append)
          ultimately have "\<exists>new. sent (up_client st') = sent ?c @ new
                      \<and> with_body new = map (upload_request file_url guid)
                          (later_calls file_size chunk_size ?bs ?ofs)
                      \<and> (\<forall>rq\<in>set (without_body new).
                            meth rq = POST \<and> target rq = api_url ?c @ ''/contextinfo'')"
            by blast
          then show ?thesis
            using st'(3) n a by (simp add: lc)
        qed
        show ?thesis
          using step st'(1) pre fin by auto
      qed
    qed
  qed
qed

lemma later_calls_shape:
  "0 < ch \<Longrightarrow>
     \<exists>cs off. later_calls fs ch bs ofs = cs @ [FinishUpload off (take ch (drop off bs))]
        \<and> fs \<le> off + ch \<and> (\<forall>x\<in>set cs. \<not> is_finish x \<and> call_offset x + ch < fs)"
proof (induction fs ch bs ofs rule: later_calls.induct)
  case (1 fs ch bs ofs)
  show ?case
  proof (cases "fs \<le> ofs + ch")
    case True
    then have "later_calls fs ch bs ofs = [] @ [FinishUpload ofs (take ch (drop ofs bs))]"
      by (simp add: later_calls.simps)
    with True show ?thesis by fastforce
  next
    case False
    with "1.prems" have rec: "later_calls fs ch bs ofs
        = ContinueUpload ofs (take ch (drop ofs bs)) # later_calls fs ch bs (ofs + ch)"
      by (subst later_calls.simps) simp
    from "1.IH" False "1.prems" obtain cs off where
      cs: "later_calls fs ch bs (ofs + ch) = cs @ [FinishUpload off (take ch (drop off bs))]"
        "fs \<le> off + ch" "\<forall>x\<in>set cs. \<not> is_finish x \<and> call_offset x + ch < fs"
      by auto
    have "later_calls fs ch bs ofs
            = (ContinueUpload ofs (take ch (drop ofs bs)) # cs) @ [FinishUpload off (take ch (drop off bs))]"
      using rec cs(1) by simp
    moreover have "\<forall>x\<in>set (ContinueUpload ofs (take ch (drop ofs bs)) # cs).
                     \<not> is_finish x \<and> call_offset x + ch < fs"
      using cs(3) False by simp
    ultimately show ?thesis using cs(2) by blast
  qed
qed


lemma upload_loop_start:
  assumes len: "length (file_bytes f) = file_size"
    and pos: "file_pos f = 0"
    and big: "chunk_size < file_size"
    and ch: "0 < chunk_size"
  shows "\<exists>r st. upload_loop e file_url guid file_size chunk_size
             \<lparr>up_client = c, up_file = f, up_offset = 0, up_first_chunk = True, up_calls = []\<rparr>
           = Some (r, st)
     \<and> (\<exists>k. up_calls st = take k (StartUpload (take chunk_size (file_bytes f))
                # later_calls file_size chunk_size (file_bytes f) chunk_size))
     \<and> (r = None \<longrightarrow>
          up_calls st = StartUpload (take chunk_size (file_bytes f))
                # later_calls file_size chunk_size (file_bytes f) chunk_size
          \<and> file_closed (up_file st) = file_closed f
          \<and> (\<exists>new. sent (up_client st) = sent c @ new
                \<and> with_body new = map (upload_request file_url guid) (up_calls st)
                \<and> (\<forall>rq\<in>set (without_body new).
                      meth rq = POST \<and> target rq = api_url c @ ''/contextinfo'')))"
proof -
  let ?st0 = "\<lparr>up_client = c, up_file = f, up_offset = 0, up_first_chunk = True, up_calls = []\<rparr>"
  let ?chunk = "take chunk_size (file_bytes f)"
  let ?call = "StartUpload ?chunk"
  let ?rest = "later_calls file_size chunk_size (file_bytes f) chunk_size"
  let ?f1 = "f\<lparr>file_pos := length ?chunk\<rparr>"
  show ?thesis
  proof (cases "read_error e (file_pos f)")
    case True
    have "upload_loop e file_url guid file_size chunk_size ?st0
            = Some (Some IOError, ?st0\<lparr>up_file := f\<rparr>)"
      by (subst upload_loop.simps) (simp add: f_read_error[OF True])
    moreover have "\<exists>k. [] = take k (?call # ?rest)"
      by (rule exI[of _ 0]) simp
    ultimately show ?thesis by auto
  next
    case rd: False
    have rdk: "f_read e f chunk_size = (Inr ?chunk, ?f1)"
      using f_read_ok[OF rd, of chunk_size] pos by simp
    have lc: "length ?chunk = chunk_size" using len big by simp
    obtain r c1 where s: "send_call e c file_url guid ?call = (r, c1)"
      by (cases "send_call e c file_url guid ?call")
    show ?thesis
    proof (cases r)
      case (Inl x)
      have "upload_loop e file_url guid file_size chunk_size ?st0
            = Some (Some x, ?st0\<lparr>up_client := c1, up_file := ?f1, up_calls := [] @ [?call]\<rparr>)"
        by (subst upload_loop.simps) (simp add: rdk s Inl)
      moreover have "\<exists>k. [] @ [?call] = take k (?call # ?rest)"
        by (rule exI[of _ 1]) simp
      ultimately show ?thesis by auto
    next
      case (Inr y)
      let ?st1 = "\<lparr>up_client = c1, up_file = ?f1, up_offset = chunk_size, up_first_chunk = False,
                   up_calls = [?call]\<rparr>"
      have step: "upload_loop e file_url guid file_size chunk_size ?st0
          = upload_loop e file_url guid file_size chunk_size ?st1"
        using len big by (subst upload_loop.simps) (simp add: rdk s Inr)
      have w: "\<exists>new. sent c1 = sent c @ new
             \<and> with_body new = [upload_request file_url guid ?call]
             \<and> (\<forall>rq\<in>set (without_body new). meth rq = POST \<and> target rq = api_url c @ ''/contextinfo'')"
        and a: "api_url c1 = api_url c"
        using send_call_wire[of e c file_url guid ?call y c1] s Inr by simp_all
      have "length (file_bytes (up_file ?st1)) = file_size"
        "file_pos (up_file ?st1) = up_offset ?st1" "\<not> up_first_chunk ?st1"
        using len lc by simp_all
      from upload_loop_later[OF ch this, of e file_url guid]
      obtain r' st' where st':
        "upload_loop e file_url guid file_size chunk_size ?st1 = Some (r', st')"
        "\<exists>k. up_calls st' = [?call] @ take k ?rest"
        "r' = None \<longrightarrow>
              up_calls st' = [?call] @ ?rest
              \<and> file_closed (up_file st') = file_closed f
              \<and> api_url (up_client st') = api_url c1
              \<and> (\<exists>new. sent (up_client st') = sent c1 @ new
                    \<and> with_body new = map (upload_request file_url guid) ?rest
                    \<and> (\<forall>rq\<in>set (without_body new).
                          meth rq = POST \<and> target rq = api_url c1 @ ''/contextinfo''))"
        by auto
      from st'(2) obtain k where "up_calls st' = [?call] @ take k ?rest" by blast
      then have "up_calls st' = take (Suc k) (?call # ?rest)" by simp
      then have pre: "\<exists>k. up_calls st' = take k (?call # ?rest)" by blast
      have fin: "up_calls st' = ?call # ?rest
          \<and> file_closed (up_file st') = file_closed f
          \<and> (\<exists>new. sent (up_client st') = sent c @ new
                \<and> with_body new = map (upload_request file_url guid) (up_calls st')
                \<and> (\<forall>rq\<in>set (without_body new).
                      meth rq = POST \<and> target rq = api_url c @ ''/contextinfo''))"
        if n: "r' = None"
      proof -
        from w obtain n1 where n1: "sent c1 = sent c @ n1"
          "with_body n1 = [upload_request file_url guid ?call]"
          "\<forall>rq\<in>set (without_body n1). meth rq = POST \<and> target rq = api_url c @ ''/contextinfo''"
          by blast
        from st'(3) n obtain n2 where n2: "sent (up_client st') = sent c1 @ n2"
          "with_body n2 = map (upload_request file_url guid) ?rest"
          "\<forall>rq\<in>set (without_body n2). meth rq = POST \<and> target rq = api_url c1 @ ''/contextinfo''"
          by blast
        have calls: "up_calls st' = ?call # ?rest" using st'(3) n by simp
        have "sent (up_client st') = sent c @ (n1 @ n2)"
          using n1(1) n2(1) by simp
        moreover have "with_body (n1 @ n2) = map (upload_request file_url guid) (up_calls st')"
          using n1(2) n2(2) calls by (simp add: with_body_append)
        moreover have "\<forall>rq\<in>set (without_body (n1 @ n2)).
                          meth rq = POST \<and> target rq = api_url c @ ''/contextinfo''"
          using n1(3) n2(3) a by (auto simp: without_body_append)
        ultimately have "\<exists>new. sent (up_client st') = sent c @ new
                \<and> with_body new = map (upload_request file_url guid) (up_calls st')
                \<and> (\<forall>rq\<in>set (without_body new).
                      meth rq = POST \<and> target rq = api_url c @ ''/contextinfo'')"
          by blast
        then show ?thesis
          using st'(3) n calls by simp
      qed
      show ?thesis
        using step st'(1) pre fin by auto
    qed
  qed
qed

lemma str_int_examples:
  "str_int (int 1048576) = ''1048576''" "str_int (int 2097152) = ''2097152''"
  by (simp_all add: str_int_def str_nat.simps)

lemma upload_loop_raises_aux:
  assumes "upload_loop e file_url guid file_size chunk_size st = Some y"
  shows "fst y = Some x \<longrightarrow>
       (\<exists>p. read_error e p) \<or> (\<exists>c' call. fst (send_call e c' file_url guid call) = Inl x)"
proof (rule upload_loop.raw_induct[where P = "\<lambda>e file_url guid file_size chunk_size st y.
         fst y = Some x \<longrightarrow>
           (\<exists>p. read_error e p) \<or> (\<exists>c' call. fst (send_call e c' file_url guid call) = Inl x)",
       OF _ assms], goal_cases)
  case (1 loop e file_url guid file_size chunk_size st y)
  note IH = 1(1) and eq = 1(2)
  obtain rr f1 where rd: "f_read e (up_file st) chunk_size = (rr, f1)"
    by (cases "f_read e (up_file st) chunk_size")
  show ?case
  proof (cases rr)
    case (Inl z)
    have "read_error e (file_pos (up_file st))"
      using rd Inl by (auto simp: f_read_def Let_def split: if_splits)
    then show ?thesis by blast
  next
    case (Inr chunk)
    let ?call = "if up_first_chunk st then StartUpload chunk
                 else if int file_size - int chunk_size \<le> int (up_offset st)
                 then FinishUpload (up_offset st) chunk
                 else ContinueUpload (up_offset st) chunk"
    obtain r c1 where s: "send_call e (up_client st) file_url guid ?call = (r, c1)"
      by (cases "send_call e (up_client st) file_url guid ?call")
    show ?thesis
    proof (cases r)
      case (Inl z)
      have "fst y = Some z"
        using eq s by (auto simp: rd Inr Inl split: if_splits)
      moreover have "fst (send_call e (up_client st) file_url guid ?call) = Inl z"
        using s Inl by simp
      ultimately show ?thesis by auto
    next
      case ok: (Inr resp)
      show ?thesis
      proof (cases "\<not> up_first_chunk st \<and> int file_size - int chunk_size \<le> int (up_offset st)")
        case True
        then have "fst y = None"
          using eq s by (auto simp: rd Inr ok)
        then show ?thesis by simp
      next
        case False
        then obtain st2 where "loop e file_url guid file_size chunk_size st2 = Some y"
          using eq s by (auto simp: rd Inr ok split: if_splits)
        from IH[OF this] show ?thesis .
      qed
    qed
  qed
qed

lemma upload_loop_raises:
  assumes "upload_loop e file_url guid file_size chunk_size st = Some (Some x, st')"
  shows "(\<exists>p. read_error e p) \<or> (\<exists>c' call. fst (send_call e c' file_url guid call) = Inl x)"
  using upload_loop_raises_aux[OF assms, of x] by simp

lemma healthy_post:
  assumes "\<And>lg. server e lg = ok_json (contextinfo_body tok 1800)" and "\<And>k. clock e k = 0"
  shows "\<exists>r c'. post e c u p = (Inr r, c')"
  by (cases "expire c \<le> 0")
     (simp_all add: post_def http_def upper_def digest_def Let_def session_request_eq assms
        ok_json_def contextinfo_body_def check_response_def contextinfo_def response_json_def
        add_timedelta_def)

text \<open>
  C3. For a local file of \<open>file_size\<close> bytes read from its start, with \<open>file_size\<close> above
  the (positive) chunk size, the loop of \<open>_stream_upload\<close> always ends, and the calls it
  has issued by then are an initial part of the sequence start, then continue for every
  later chunk read at an offset below \<open>file_size - chunk_size\<close>, then finish for the
  first chunk read at an offset of at least \<open>file_size - chunk_size\<close>. When it ends with
  an exception, a read failed or that exception is the one of a call. When it ends at
  its \<open>break\<close>, \<open>_stream_upload\<close> returns, the calls are the whole sequence, and the
  requests with a body that the client has put on the wire since are exactly, in this
  order, one POST for each call, to the file node's URL followed by the call string and
  carrying the chunk; the only other requests sent are token renewals. So a chunk goes
  to the finish call iff it was read at an offset of at least \<open>file_size - chunk_size\<close>,
  there is exactly one finish call and it is the last call. For 2,097,153 bytes and
  chunks of 1,048,576 the requests are start, continue at 1,048,576 and finish at
  2,097,152 with one byte; for 2,097,152 bytes they are start and finish at 1,048,576
  with a full chunk. \<open>upload_file\<close> passes the chunk size 1,048,576.
\<close>

theorem chunked_upload_calls:
  assumes "length (file_bytes f) = file_size"
    and "file_pos f = 0"
    and "chunk_size < file_size"
    and "0 < chunk_size"
  shows "\<exists>r st. upload_loop e file_url guid file_size chunk_size
             \<lparr>up_client = c, up_file = f, up_offset = 0, up_first_chunk = True, up_calls = []\<rparr>
           = Some (r, st)
     \<and> (\<exists>k. up_calls st = take k (StartUpload (take chunk_size (file_bytes f))
                # later_calls file_size chunk_size (file_bytes f) chunk_size))
     \<and> (\<forall>x. r = Some x \<longrightarrow>
          (\<exists>p. read_error e p) \<or> (\<exists>c' call. fst (send_call e c' file_url guid call) = Inl x))
     \<and> (r = None \<longrightarrow>
          stream_upload e c file_url guid f file_size chunk_size = Some (Inr (), st)
          \<and> up_calls st = StartUpload (take chunk_size (file_bytes f))
                # later_calls file_size chunk_size (file_bytes f) chunk_size
          \<and> (\<exists>new. sent (up_client st) = sent c @ new
                \<and> with_body new = map (upload_request file_url guid) (up_calls st)
                \<and> (\<forall>rq\<in>set (without_body new).
                      meth rq = POST \<and> target rq = api_url c @ ''/contextinfo'')
                \<and> (file_size = 2097153 \<and> chunk_size = 1048576 \<longrightarrow>
                      with_body new =
                        [(POST, file_url @ ''/startupload(uploadId=guid'' @ [CHR 0x27] @ str_uuid guid
                                  @ [CHR 0x27] @ '')'',
                          Data (take 1048576 (file_bytes f))),
                         (POST, file_url @ ''/continueupload(uploadId=guid'' @ [CHR 0x27] @ str_uuid guid
                                  @ [CHR 0x27] @ '', fileOffset=1048576)'',
                          Data (take 1048576 (drop 1048576 (file_bytes f)))),
                         (POST, file_url @ ''/finishupload(uploadId=guid'' @ [CHR 0x27] @ str_uuid guid
                                  @ [CHR 0x27] @ '', fileOffset=2097152)'',
                          Data (drop 2097152 (file_bytes f)))]
                      \<and> length (drop 2097152 (file_bytes f)) = 1)
                \<and> (file_size = 2097152 \<and> chunk_size = 1048576 \<longrightarrow>
                      with_body new =
                        [(POST, file_url @ ''/startupload(uploadId=guid'' @ [CHR 0x27] @ str_uuid guid
                                  @ [CHR 0x27] @ '')'',
                          Data (take 1048576 (file_bytes f))),
                         (POST, file_url @ ''/finishupload(uploadId=guid'' @ [CHR 0x27] @ str_uuid guid
                                  @ [CHR 0x27] @ '', fileOffset=1048576)'',
                          Data (drop 1048576 (file_bytes f)))]
                      \<and> length (drop 1048576 (file_bytes f)) = 1048576))
          \<and> (\<forall>x \<in> set (up_calls st).
                is_finish x \<longleftrightarrow> int file_size - int chunk_size \<le> int (call_offset x))
          \<and> length (filter is_finish (up_calls st)) = 1
          \<and> is_finish (last (up_calls st)))
     \<and> upload_chunk_size = 1048576"
proof -
  let ?bs = "file_bytes f"
  let ?init = "\<lparr>up_client = c, up_file = f, up_offset = 0, up_first_chunk = True, up_calls = []\<rparr>"
  let ?seq = "StartUpload (take chunk_size ?bs) # later_calls file_size chunk_size ?bs chunk_size"
  from upload_loop_start[OF assms, of e file_url guid c]
  obtain r st where st:
    "upload_loop e file_url guid file_size chunk_size ?init = Some (r, st)"
    "\<exists>k. up_calls st = take k ?seq"
    "r = None \<longrightarrow> up_calls st = ?seq
       \<and> (\<exists>new. sent (up_client st) = sent c @ new
                \<and> with_body new = map (upload_request file_url guid) (up_calls st)
                \<and> (\<forall>rq\<in>set (without_body new).
                      meth rq = POST \<and> target rq = api_url c @ ''/contextinfo''))"
    by blast
  from later_calls_shape[OF assms(4), of file_size ?bs chunk_size]
  obtain cs off where cs:
    "later_calls file_size chunk_size ?bs chunk_size
       = cs @ [FinishUpload off (take chunk_size (drop off ?bs))]"
    "file_size \<le> off + chunk_size"
    "\<forall>x\<in>set cs. \<not> is_finish x \<and> call_offset x + chunk_size < file_size"
    by blast
  have seq: "?seq = StartUpload (take chunk_size ?bs) # cs
                 @ [FinishUpload off (take chunk_size (drop off ?bs))]"
    using cs(1) by simp
  have nofin: "filter is_finish cs = []"
    using cs(3) by (simp add: filter_empty_conv)
  have iff: "\<forall>x \<in> set ?seq.
          is_finish x \<longleftrightarrow> int file_size - int chunk_size \<le> int (call_offset x)"
    unfolding seq using cs(2,3) assms(3) by auto
  have once: "length (filter is_finish ?seq) = 1"
    unfolding seq using nofin by simp
  have lst: "is_finish (last ?seq)"
    unfolding seq by simp
  have ex1: "?seq = [StartUpload (take 1048576 ?bs),
                         ContinueUpload 1048576 (take 1048576 (drop 1048576 ?bs)),
                         FinishUpload 2097152 (drop 2097152 ?bs)]
          \<and> length (drop 2097152 ?bs) = 1"
    if "file_size = 2097153 \<and> chunk_size = 1048576"
  proof -
    have l: "length ?bs = 2097153" using that assms(1) by simp
    have "later_calls 2097153 1048576 ?bs 2097152
            = [FinishUpload 2097152 (take 1048576 (drop 2097152 ?bs))]"
      by (subst later_calls.simps) simp
    moreover have "later_calls 2097153 1048576 ?bs 1048576
            = ContinueUpload 1048576 (take 1048576 (drop 1048576 ?bs))
                # later_calls 2097153 1048576 ?bs 2097152"
      by (subst later_calls.simps) simp
    moreover have "take 1048576 (drop 2097152 ?bs) = drop 2097152 ?bs"
      using l by simp
    ultimately show ?thesis using that l by simp
  qed
  have ex2: "?seq = [StartUpload (take 1048576 ?bs),
                         FinishUpload 1048576 (drop 1048576 ?bs)]
          \<and> length (drop 1048576 ?bs) = 1048576"
    if "file_size = 2097152 \<and> chunk_size = 1048576"
  proof -
    have l: "length ?bs = 2097152" using that assms(1) by simp
    have "later_calls 2097152 1048576 ?bs 1048576
            = [FinishUpload 1048576 (take 1048576 (drop 1048576 ?bs))]"
      by (subst later_calls.simps) simp
    moreover have "take 1048576 (drop 1048576 ?bs) = drop 1048576 ?bs"
      using l by simp
    ultimately show ?thesis using that l by simp
  qed
  have m1: "map (upload_request file_url guid) [StartUpload (take 1048576 ?bs),
                         ContinueUpload 1048576 (take 1048576 (drop 1048576 ?bs)),
                         FinishUpload 2097152 (drop 2097152 ?bs)]
      = [(POST, file_url @ ''/startupload(uploadId=guid'' @ [CHR 0x27] @ str_uuid guid
                                  @ [CHR 0x27] @ '')'',
                          Data (take 1048576 (file_bytes f))),
                         (POST, file_url @ ''/continueupload(uploadId=guid'' @ [CHR 0x27] @ str_uuid guid
                                  @ [CHR 0x27] @ '', fileOffset=1048576)'',
                          Data (take 1048576 (drop 1048576 (file_bytes f)))),
                         (POST, file_url @ ''/finishupload(uploadId=guid'' @ [CHR 0x27] @ str_uuid guid
                                  @ [CHR 0x27] @ '', fileOffset=2097152)'',
                          Data (drop 2097152 (file_bytes f)))]"
    using str_int_examples by simp
  have m2: "map (upload_request file_url guid) [StartUpload (take 1048576 ?bs),
                         FinishUpload 1048576 (drop 1048576 ?bs)]
      = [(POST, file_url @ ''/startupload(uploadId=guid'' @ [CHR 0x27] @ str_uuid guid
                                  @ [CHR 0x27] @ '')'',
                          Data (take 1048576 (file_bytes f))),
                         (POST, file_url @ ''/finishupload(uploadId=guid'' @ [CHR 0x27] @ str_uuid guid
                                  @ [CHR 0x27] @ '', fileOffset=1048576)'',
                          Data (drop 1048576 (file_bytes f)))]"
    using str_int_examples by simp
  have fin: "stream_upload e c file_url guid f file_size chunk_size = Some (Inr (), st)
          \<and> up_calls st = ?seq
          \<and> (\<exists>new. sent (up_client st) = sent c @ new
                \<and> with_body new = map (upload_request file_url guid) (up_calls st)
                \<and> (\<forall>rq\<in>set (without_body new).
                      meth rq = POST \<and> target rq = api_url c @ ''/contextinfo'')
                \<and> (file_size = 2097153 \<and> chunk_size = 1048576 \<longrightarrow>
                      with_body new =
                        [(POST, file_url @ ''/startupload(uploadId=guid'' @ [CHR 0x27] @ str_uuid guid
                                  @ [CHR 0x27] @ '')'',
                          Data (take 1048576 (file_bytes f))),
                         (POST, file_url @ ''/continueupload(uploadId=guid'' @ [CHR 0x27] @ str_uuid guid
                                  @ [CHR 0x27] @ '', fileOffset=1048576)'',
                          Data (take 1048576 (drop 1048576 (file_bytes f)))),
                         (POST, file_url @ ''/finishupload(uploadId=guid'' @ [CHR 0x27] @ str_uuid guid
                                  @ [CHR 0x27] @ '', fileOffset=2097152)'',
                          Data (drop 2097152 (file_bytes f)))]
                      \<and> length (drop 2097152 (file_bytes f)) = 1)
                \<and> (file_size = 2097152 \<and> chunk_size = 1048576 \<longrightarrow>
                      with_body new =
                        [(POST, file_url @ ''/startupload(uploadId=guid'' @ [CHR 0x27] @ str_uuid guid
                                  @ [CHR 0x27] @ '')'',
                          Data (take 1048576 (file_bytes f))),
                         (POST, file_url @ ''/finishupload(uploadId=guid'' @ [CHR 0x27] @ str_uuid guid
                                  @ [CHR 0x27] @ '', fileOffset=1048576)'',
                          Data (drop 1048576 (file_bytes f)))]
                      \<and> length (drop 1048576 (file_bytes f)) = 1048576))
          \<and> (\<forall>x \<in> set (up_calls st).
                is_finish x \<longleftrightarrow> int file_size - int chunk_size \<le> int (call_offset x))
          \<and> length (filter is_finish (up_calls st)) = 1
          \<and> is_finish (last (up_calls st))"
    if n: "r = None"
  proof -
    have su: "stream_upload e c file_url guid f file_size chunk_size = Some (Inr (), st)"
      using st(1) n by (simp add: stream_upload_def)
    have calls: "up_calls st = ?seq" using st(3) n by blast
    from st(3) n obtain new where new: "sent (up_client st) = sent c @ new"
      "with_body new = map (upload_request file_url guid) (up_calls st)"
      "\<forall>rq\<in>set (without_body new). meth rq = POST \<and> target rq = api_url c @ ''/contextinfo''"
      by blast
    have w1: "with_body new =
                        [(POST, file_url @ ''/startupload(uploadId=guid'' @ [CHR 0x27] @ str_uuid guid
                                  @ [CHR 0x27] @ '')'',
                          Data (take 1048576 (file_bytes f))),
                         (POST, file_url @ ''/continueupload(uploadId=guid'' @ [CHR 0x27] @ str_uuid guid
                                  @ [CHR 0x27] @ '', fileOffset=1048576)'',
                          Data (take 1048576 (drop 1048576 (file_bytes f)))),
                         (POST, file_url @ ''/finishupload(uploadId=guid'' @ [CHR 0x27] @ str_uuid guid
                                  @ [CHR 0x27] @ '', fileOffset=2097152)'',
                          Data (drop 2097152 (file_bytes f)))]
                      \<and> length (drop 2097152 (file_bytes f)) = 1"
      if "file_size = 2097153 \<and> chunk_size = 1048576"
      using ex1[OF that] new(2) calls m1 by metis
    have w2: "with_body new =
                        [(POST, file_url @ ''/startupload(uploadId=guid'' @ [CHR 0x27] @ str_uuid guid
                                  @ [CHR 0x27] @ '')'',
                          Data (take 1048576 (file_bytes f))),
                         (POST, file_url @ ''/finishupload(uploadId=guid'' @ [CHR 0x27] @ str_uuid guid
                                  @ [CHR 0x27] @ '', fileOffset=1048576)'',
                          Data (drop 1048576 (file_bytes f)))]
                      \<and> length (drop 1048576 (file_bytes f)) = 1048576"
      if "file_size = 2097152 \<and> chunk_size = 1048576"
      using ex2[OF that] new(2) calls m2 by metis
    have i: "\<forall>x \<in> set (up_calls st).
                is_finish x \<longleftrightarrow> int file_size - int chunk_size \<le> int (call_offset x)"
      and o: "length (filter is_finish (up_calls st)) = 1"
      and l: "is_finish (last (up_calls st))"
      using iff once lst unfolding calls by blast+
    show ?thesis
      using su calls new w1 w2 i o l by blast
  qed
  have rs: "\<forall>x. r = Some x \<longrightarrow>
          (\<exists>p. read_error e p) \<or> (\<exists>c' call. fst (send_call e c' file_url guid call) = Inl x)"
    using upload_loop_raises[of e file_url guid file_size chunk_size ?init _ st] st(1) by auto
  have cs: "upload_chunk_size = 1048576"
    by (simp add: upload_chunk_size_def)
  show ?thesis
    using st(1,2) rs fin cs by blast
qed


theorem chunked_upload_calls_witness:
  "(\<exists>st. stream_upload (scripted [] (ok_json (contextinfo_body ''0x1A'' 1800)) (\<lambda>k. 0))
          (new_client ''https://host/_api'' 0) ''https://host/_api/Web/F''
          0x12345678123456781234567812345678
          \<lparr>file_bytes = replicate 2097153 0, file_pos = 0, file_closed = False\<rparr>
          2097153 1048576 = Some (Inr (), st)
     \<and> with_body (sent (up_client st)) =
          [(POST, ''https://host/_api/Web/F/startupload(uploadId=guid'' @ [CHR 0x27]
                    @ ''12345678-1234-5678-1234-567812345678'' @ [CHR 0x27] @ '')'',
            Data (replicate 1048576 0)),
           (POST, ''https://host/_api/Web/F/continueupload(uploadId=guid'' @ [CHR 0x27]
                    @ ''12345678-1234-5678-1234-567812345678'' @ [CHR 0x27] @ '', fileOffset=1048576)'',
            Data (replicate 1048576 0)),
           (POST, ''https://host/_api/Web/F/finishupload(uploadId=guid'' @ [CHR 0x27]
                    @ ''12345678-1234-5678-1234-567812345678'' @ [CHR 0x27] @ '', fileOffset=2097152)'',
            Data (replicate 1 0))]
     \<and> length (filter is_finish (up_calls st)) = 1)"
proof -
  let ?e = "scripted [] (ok_json (contextinfo_body ''0x1A'' 1800)) (\<lambda>k. 0)"
  let ?c = "new_client ''https://host/_api'' 0"
  let ?u = "''https://host/_api/Web/F''"
  let ?g = "0x12345678123456781234567812345678 :: 128 word"
  let ?f = "\<lparr>file_bytes = replicate 2097153 (0::8 word), file_pos = 0, file_closed = False\<rparr>"
  let ?init = "\<lparr>up_client = ?c, up_file = ?f, up_offset = 0, up_first_chunk = True, up_calls = []\<rparr>"
  let ?wire = "[(POST, ?u @ ''/startupload(uploadId=guid'' @ [CHR 0x27] @ str_uuid ?g
                                  @ [CHR 0x27] @ '')'',
                          Data (take 1048576 (file_bytes ?f))),
                         (POST, ?u @ ''/continueupload(uploadId=guid'' @ [CHR 0x27] @ str_uuid ?g
                                  @ [CHR 0x27] @ '', fileOffset=1048576)'',
                          Data (take 1048576 (drop 1048576 (file_bytes ?f)))),
                         (POST, ?u @ ''/finishupload(uploadId=guid'' @ [CHR 0x27] @ str_uuid ?g
                                  @ [CHR 0x27] @ '', fileOffset=2097152)'',
                          Data (drop 2097152 (file_bytes ?f)))]"
  have ok: "\<And>c' call. \<exists>r c''. send_call ?e c' ?u ?g call = (Inr r, c'')"
    unfolding send_call_post by (rule healthy_post) (simp_all add: scripted_def)
  have rd: "\<And>p. \<not> read_error ?e p"
    by (simp add: scripted_def)
  have len: "length (file_bytes ?f) = 2097153" and pos: "file_pos ?f = 0"
    and big: "(1048576::nat) < 2097153" and ch: "(0::nat) < 1048576"
    by simp_all
  have sz: "(2097153::nat) = 2097153 \<and> (1048576::nat) = 1048576" by simp
  from chunked_upload_calls[OF len pos big ch, of ?e ?u ?g ?c] sz
  obtain r st where l: "upload_loop ?e ?u ?g 2097153 1048576 ?init = Some (r, st)"
    and rs: "\<forall>x. r = Some x \<longrightarrow>
          (\<exists>p. read_error ?e p) \<or> (\<exists>c' call. fst (send_call ?e c' ?u ?g call) = Inl x)"
    and n: "r = None \<longrightarrow>
          stream_upload ?e ?c ?u ?g ?f 2097153 1048576 = Some (Inr (), st)
          \<and> (\<exists>new. sent (up_client st) = sent ?c @ new \<and> with_body new = ?wire)
          \<and> length (filter is_finish (up_calls st)) = 1"
    by blast
  have none: "r = None"
  proof (cases r)
    case (Some x)
    with rs rd obtain c' call where "fst (send_call ?e c' ?u ?g call) = Inl x" by blast
    moreover obtain y c'' where "send_call ?e c' ?u ?g call = (Inr y, c'')" using ok by blast
    ultimately show ?thesis by simp
  qed simp
  have bytes: "take 1048576 (file_bytes ?f) = replicate 1048576 0"
    "take 1048576 (drop 1048576 (file_bytes ?f)) = replicate 1048576 0"
    "drop 2097152 (file_bytes ?f) = replicate 1 0"
    by simp_all
  have s0: "sent ?c = []" by (simp add: new_client_def)
  from n none obtain new where new: "sent (up_client st) = sent ?c @ new" "with_body new = ?wire"
    by blast
  have w: "with_body (sent (up_client st)) =
          [(POST, ''https://host/_api/Web/F/startupload(uploadId=guid'' @ [CHR 0x27]
                    @ ''12345678-1234-5678-1234-567812345678'' @ [CHR 0x27] @ '')'',
            Data (replicate 1048576 0)),
           (POST, ''https://host/_api/Web/F/continueupload(uploadId=guid'' @ [CHR 0x27]
                    @ ''12345678-1234-5678-1234-567812345678'' @ [CHR 0x27] @ '', fileOffset=1048576)'',
            Data (replicate 1048576 0)),
           (POST, ''https://host/_api/Web/F/finishupload(uploadId=guid'' @ [CHR 0x27]
                    @ ''12345678-1234-5678-1234-567812345678'' @ [CHR 0x27] @ '', fileOffset=2097152)'',
            Data (replicate 1 0))]"
    unfolding new(1) s0 append_Nil new(2) bytes str_uuid_example by simp
  show ?thesis
    using n none w by blast
qed

lemma failing_upload_example:
  "map_option fst (upload_loop (scripted [ok_json JNull, server_error] (ok_json JNull) (\<lambda>k. 0))
      ''https://host/_api/Web/F'' 7 9 4
      \<lparr>up_client = new_client ''https://host/_api'' 100,
        up_file = \<lparr>file_bytes = [1,2,3,4,5,6,7,8,9], file_pos = 0, file_closed = False\<rparr>,
        up_offset = 0, up_first_chunk = True, up_calls = []\<rparr>) = Some (Some TransportError)"
  "map_option fst (stream_upload (scripted [ok_json JNull, server_error] (ok_json JNull) (\<lambda>k. 0))
      (new_client ''https://host/_api'' 100) ''https://host/_api/Web/F'' 7
      \<lparr>file_bytes = [1,2,3,4,5,6,7,8,9], file_pos = 0, file_closed = False\<rparr> 9 4) = Some (Inr ())"
  "map_option (up_calls \<circ> snd) (stream_upload (scripted [ok_json JNull, server_error] (ok_json JNull) (\<lambda>k. 0))
      (new_client ''https://host/_api'' 100) ''https://host/_api/Web/F'' 7
      \<lparr>file_bytes = [1,2,3,4,5,6,7,8,9], file_pos = 0, file_closed = False\<rparr> 9 4)
   = Some [StartUpload [1,2,3,4], ContinueUpload 4 [5,6,7,8], CancelUpload]"
  "map_option (file_closed \<circ> up_file \<circ> snd) (stream_upload (scripted [ok_json JNull, server_error] (ok_json JNull) (\<lambda>k. 0))
      (new_client ''https://host/_api'' 100) ''https://host/_api/Web/F'' 7
      \<lparr>file_bytes = [1,2,3,4,5,6,7,8,9], file_pos = 0, file_closed = False\<rparr> 9 4) = Some True"
  by (simp_all add: stream_upload_def upload_loop.simps f_read_def send_call_post post_def http_def
      upper_def digest_def Let_def session_request_eq scripted_def ok_json_def server_error_def
      new_client_def check_response_def response_json_def)

text \<open>
  C8 (as amended). When a read or a call inside the loop raises, \<open>_stream_upload\<close>
  closes the local file, issues one more call, the cancel call with the session id as
  its argument, and does not raise the original exception again: it returns normally
  when the cancel call succeeds and raises the cancel call's exception when that call
  fails. When the loop ends at its \<open>break\<close>, no cancel call is issued.
\<close>

theorem stream_upload_cancels:
  "(upload_loop e file_url guid file_size chunk_size
       \<lparr>up_client = c, up_file = f, up_offset = 0, up_first_chunk = True, up_calls = []\<rparr>
      = Some (Some x, st) \<longrightarrow>
     (\<exists>res st'. stream_upload e c file_url guid f file_size chunk_size = Some (res, st')
        \<and> file_closed (up_file st')
        \<and> up_calls st' = up_calls st @ [CancelUpload]
        \<and> sent (up_client st')
            = sent (snd (post e (up_client st)
                (file_url @ ''/cancelupload(guid'' @ [CHR 0x27] @ str_uuid guid @ [CHR 0x27] @ '')'')
                NoPayload))
        \<and> res = (case fst (send_call e (up_client st) file_url guid CancelUpload) of
                   Inl y \<Rightarrow> Inl y | Inr r \<Rightarrow> Inr ())))
   \<and> (upload_loop e file_url guid file_size chunk_size
       \<lparr>up_client = c, up_file = f, up_offset = 0, up_first_chunk = True, up_calls = []\<rparr>
      = Some (None, st) \<longrightarrow>
        stream_upload e c file_url guid f file_size chunk_size = Some (Inr (), st))
   \<and> call_string guid CancelUpload
        = Inr (''/cancelupload(guid'' @ [CHR 0x27] @ str_uuid guid @ [CHR 0x27] @ '')'')"
proof -
  let ?init = "\<lparr>up_client = c, up_file = f, up_offset = 0, up_first_chunk = True, up_calls = []\<rparr>"
  have a: "\<exists>res st'. stream_upload e c file_url guid f file_size chunk_size = Some (res, st')
        \<and> file_closed (up_file st')
        \<and> up_calls st' = up_calls st @ [CancelUpload]
        \<and> sent (up_client st')
            = sent (snd (post e (up_client st)
                (file_url @ ''/cancelupload(guid'' @ [CHR 0x27] @ str_uuid guid @ [CHR 0x27] @ '')'')
                NoPayload))
        \<and> res = (case fst (send_call e (up_client st) file_url guid CancelUpload) of
                   Inl y \<Rightarrow> Inl y | Inr r \<Rightarrow> Inr ())"
    if l: "upload_loop e file_url guid file_size chunk_size ?init = Some (Some x, st)"
  proof -
    obtain r c1 where s: "send_call e (up_client st) file_url guid CancelUpload = (r, c1)"
      by (cases "send_call e (up_client st) file_url guid CancelUpload")
    then have p: "snd (post e (up_client st)
                (file_url @ ''/cancelupload(guid'' @ [CHR 0x27] @ str_uuid guid @ [CHR 0x27] @ '')'')
                NoPayload) = c1"
      by (simp add: send_call_post)
    show ?thesis
      using l s p by (cases r) (simp_all add: stream_upload_def Let_def)
  qed
  have b: "stream_upload e c file_url guid f file_size chunk_size = Some (Inr (), st)"
    if "upload_loop e file_url guid file_size chunk_size ?init = Some (None, st)"
    using that by (simp add: stream_upload_def)
  show ?thesis
    using a b upload_call_strings(4)[of guid] by blast
qed

text \<open>
  At this input the claim as stated fails: the second call (continue) is answered with
  an error, the loop raises, the cancel call follows, and \<open>_stream_upload\<close> returns
  normally instead of raising.
\<close>

theorem stream_upload_swallows_failure:
  "map_option fst (upload_loop (scripted [ok_json JNull, server_error] (ok_json JNull) (\<lambda>k. 0))
      ''https://host/_api/Web/F'' 7 9 4
      \<lparr>up_client = new_client ''https://host/_api'' 100,
        up_file = \<lparr>file_bytes = [1,2,3,4,5,6,7,8,9], file_pos = 0, file_closed = False\<rparr>,
        up_offset = 0, up_first_chunk = True, up_calls = []\<rparr>) = Some (Some TransportError)
   \<and> map_option fst (stream_upload (scripted [ok_json JNull, server_error] (ok_json JNull) (\<lambda>k. 0))
      (new_client ''https://host/_api'' 100) ''https://host/_api/Web/F'' 7
      \<lparr>file_bytes = [1,2,3,4,5,6,7,8,9], file_pos = 0, file_closed = False\<rparr> 9 4) = Some (Inr ())
   \<and> map_option (up_calls \<circ> snd) (stream_upload (scripted [ok_json JNull, server_error] (ok_json JNull) (\<lambda>k. 0))
      (new_client ''https://host/_api'' 100) ''https://host/_api/Web/F'' 7
      \<lparr>file_bytes = [1,2,3,4,5,6,7,8,9], file_pos = 0, file_closed = False\<rparr> 9 4)
     = Some [StartUpload [1,2,3,4], ContinueUpload 4 [5,6,7,8], CancelUpload]"
  using failing_upload_example(1,2,3) by blast

theorem stream_upload_cancels_witness:
  "(\<exists>st. upload_loop (scripted [ok_json JNull, server_error] (ok_json JNull) (\<lambda>k. 0))
      ''https://host/_api/Web/F'' 7 9 4
      \<lparr>up_client = new_client ''https://host/_api'' 100,
        up_file = \<lparr>file_bytes = [1,2,3,4,5,6,7,8,9], file_pos = 0, file_closed = False\<rparr>,
        up_offset = 0, up_first_chunk = True, up_calls = []\<rparr> = Some (Some TransportError, st))
   \<and> (\<exists>res st'. stream_upload (scripted [ok_json JNull, server_error] (ok_json JNull) (\<lambda>k. 0))
      (new_client ''https://host/_api'' 100) ''https://host/_api/Web/F'' 7
      \<lparr>file_bytes = [1,2,3,4,5,6,7,8,9], file_pos = 0, file_closed = False\<rparr> 9 4 = Some (res, st')
        \<and> file_closed (up_file st') \<and> last (up_calls st') = CancelUpload)"
proof -
  let ?e = "scripted [ok_json JNull, server_error] (ok_json JNull) (\<lambda>k. 0)"
  let ?c = "new_client ''https://host/_api'' 100"
  let ?f = "\<lparr>file_bytes = [1,2,3,4,5,6,7,8,9::8 word], file_pos = 0, file_closed = False\<rparr>"
  let ?init = "\<lparr>up_client = ?c, up_file = ?f, up_offset = 0, up_first_chunk = True, up_calls = []\<rparr>"
  from failing_upload_example(1)
  obtain st where st: "upload_loop ?e ''https://host/_api/Web/F'' 7 9 4 ?init = Some (Some TransportError, st)"
    by (cases "upload_loop ?e ''https://host/_api/Web/F'' 7 9 4 ?init") auto
  from stream_upload_cancels[of ?e "''https://host/_api/Web/F''" 7 9 4 ?c ?f TransportError st] st
  obtain res st' where
    "stream_upload ?e ?c ''https://host/_api/Web/F'' 7 ?f 9 4 = Some (res, st')"
    "file_closed (up_file st')" "up_calls st' = up_calls st @ [CancelUpload]"
    by blast
  then have "\<exists>res st'. stream_upload ?e ?c ''https://host/_api/Web/F'' 7 ?f 9 4 = Some (res, st')
        \<and> file_closed (up_file st') \<and> last (up_calls st') = CancelUpload"
    by auto
  with st show ?thesis by blast
qed
end
